theory Spec2Isabelle
  imports Main
begin

section \<open>Text primitives of the host language\<close>

text \<open>
  The script \<^verbatim>\<open>scripts/parse_main_2subfiles.py\<close> works on Python \<^verbatim>\<open>str\<close> values and lists of
  them. A \<^typ>\<open>string\<close> stands for a \<^verbatim>\<open>str\<close> whose code points are below 256, one \<^typ>\<open>char\<close>
  per code point. The functions of this section are the built-in operations the script calls,
  written out for that range: \<^verbatim>\<open>str.strip()\<close>, \<^verbatim>\<open>str.split(',')\<close>, \<^verbatim>\<open>str.startswith\<close>,
  the substring test \<^verbatim>\<open>in\<close>, \<^verbatim>\<open>str.replace\<close>, \<^verbatim>\<open>int(str)\<close>, \<^verbatim>\<open>str(int)\<close>, iteration over the
  lines of a text file, indexing and slicing of lists. Failures of the file system (a missing
  input, an unwritable directory) are outside the model: inputs are given by their contents
  and every write succeeds.
\<close>

datatype error = ValueError | IndexError | KeyError

definition bs :: char where
  "bs = CHR 0x5C"

definition nl :: char where
  "nl = CHR 0x0A"

definition is_space :: "char \<Rightarrow> bool" where
  "is_space c = (c \<in> set [CHR 0x09, CHR 0x0A, CHR 0x0B, CHR 0x0C, CHR 0x0D,
                           CHR 0x1C, CHR 0x1D, CHR 0x1E, CHR 0x1F, CHR 0x20,
                           CHR 0x85, CHR 0xA0])"

definition py_strip :: "string \<Rightarrow> string" where
  "py_strip s = rev (dropWhile is_space (rev (dropWhile is_space s)))"

fun py_split :: "char \<Rightarrow> string \<Rightarrow> string list" where
  "py_split sep [] = [[]]"
| "py_split sep (c # cs) =
     (if c = sep then [] # py_split sep cs
      else (let r = py_split sep cs in (c # hd r) # tl r))"

fun startswith :: "string \<Rightarrow> string \<Rightarrow> bool" where
  "startswith s [] = True"
| "startswith [] (p # ps) = False"
| "startswith (c # cs) (p # ps) = (c = p \<and> startswith cs ps)"

fun contains :: "string \<Rightarrow> string \<Rightarrow> bool" where
  "contains [] sub = (sub = [])"
| "contains (c # cs) sub = (startswith (c # cs) sub \<or> contains cs sub)"

text \<open>\<^verbatim>\<open>s.replace(old, new)\<close> for a non-empty \<open>old\<close>: leftmost occurrences, not overlapping.\<close>

function py_replace :: "string \<Rightarrow> string \<Rightarrow> string \<Rightarrow> string" where
  "py_replace old new [] = []"
| "py_replace old new (c # cs) =
     (if old \<noteq> [] \<and> startswith (c # cs) old
      then new @ py_replace old new (drop (length old) (c # cs))
      else c # py_replace old new cs)"
  by pat_completeness auto
termination
  by (relation "measure (\<lambda>(old, new, s). length s)") (auto simp: neq_Nil_conv)

definition is_digit :: "char \<Rightarrow> bool" where
  "is_digit c = (c \<in> set ''0123456789'')"

definition digit_val :: "char \<Rightarrow> nat" where
  "digit_val c = of_char c - 48"

text \<open>
  The digits of a decimal literal as \<^verbatim>\<open>int()\<close> reads them: at least one digit, single
  underscores allowed between digits. \<open>need\<close> says that the next character must be a digit.
\<close>

fun py_digits :: "bool \<Rightarrow> nat \<Rightarrow> string \<Rightarrow> nat option" where
  "py_digits need acc [] = (if need then None else Some acc)"
| "py_digits need acc (c # cs) =
     (if is_digit c then py_digits False (10 * acc + digit_val c) cs
      else if c = CHR ''_'' \<and> \<not> need then py_digits True acc cs
      else None)"

text \<open>
  \<^verbatim>\<open>int(s)\<close>: surrounding whitespace is dropped, one sign is allowed, \<open>None\<close> is the
  \<^verbatim>\<open>ValueError\<close>. The interpreter's limit on the number of digits is not modelled.
\<close>

definition py_int :: "string \<Rightarrow> int option" where
  "py_int s =
     (case py_strip s of
        [] \<Rightarrow> None
      | c # cs \<Rightarrow>
          if c = CHR ''-'' then map_option (\<lambda>n. - int n) (py_digits True 0 cs)
          else if c = CHR ''+'' then map_option int (py_digits True 0 cs)
          else map_option int (py_digits True 0 (c # cs)))"

definition digit_char :: "nat \<Rightarrow> char" where
  "digit_char d = char_of (48 + d)"

function py_str_nat :: "nat \<Rightarrow> string" where
  "py_str_nat n = (if n < 10 then [digit_char n] else py_str_nat (n div 10) @ [digit_char (n mod 10)])"
  by pat_completeness auto
termination
  by (relation "measure id") auto

text \<open>
  Iterating over a text file yields its lines with their terminators; a last line without
  terminator is yielded as it is. The text is the one the interpreter sees, after newline
  translation.
\<close>

fun file_lines :: "string \<Rightarrow> string list" where
  "file_lines [] = []"
| "file_lines (c # cs) =
     (if c = nl then [c] # file_lines cs
      else (case file_lines cs of [] \<Rightarrow> [[c]] | l # ls \<Rightarrow> (c # l) # ls))"

text \<open>\<^verbatim>\<open>xs[i]\<close>: a negative index counts from the end, an index out of range raises.\<close>

definition py_getitem :: "'a list \<Rightarrow> int \<Rightarrow> error + 'a" where
  "py_getitem xs i =
     (let n = int (length xs); j = (if i < 0 then i + n else i)
      in if 0 \<le> j \<and> j < n then Inr (xs ! nat j) else Inl IndexError)"

text \<open>\<^verbatim>\<open>xs[i:j]\<close>: negative bounds count from the end, then both are clipped to the list.\<close>

definition slice_bound :: "nat \<Rightarrow> int \<Rightarrow> nat" where
  "slice_bound n i = (let j = (if i < 0 then i + int n else i) in if j < 0 then 0 else min n (nat j))"

definition py_slice :: "'a list \<Rightarrow> int \<Rightarrow> int \<Rightarrow> 'a list" where
  "py_slice xs i j =
     (let lo = slice_bound (length xs) i; hi = slice_bound (length xs) j
      in take (hi - lo) (drop lo xs))"

text \<open>\<^verbatim>\<open>xs[i:]\<close> and \<^verbatim>\<open>xs[:j]\<close>.\<close>

definition py_slice_from :: "'a list \<Rightarrow> int \<Rightarrow> 'a list" where
  "py_slice_from xs i = drop (slice_bound (length xs) i) xs"

definition py_slice_to :: "'a list \<Rightarrow> int \<Rightarrow> 'a list" where
  "py_slice_to xs j = take (slice_bound (length xs) j) xs"

text \<open>\<^verbatim>\<open>xs.index(x)\<close>: the first position of \<open>x\<close>, \<^verbatim>\<open>ValueError\<close> when it is absent.\<close>

fun list_index :: "'a list \<Rightarrow> 'a \<Rightarrow> error + nat" where
  "list_index [] x = Inl ValueError"
| "list_index (y # ys) x =
     (if y = x then Inr 0
      else (case list_index ys x of Inl e \<Rightarrow> Inl e | Inr n \<Rightarrow> Inr (Suc n)))"

text \<open>
  \<^verbatim>\<open>enumerate(xs, start=k)\<close> is \<^term>\<open>enumerate k xs\<close> of the list library: the elements of
  \<open>xs\<close> paired with their positions, counted from \<open>k\<close>.
\<close>

section \<open>Structural records and the table-of-contents parser\<close>

record TexSection =
  level :: string
  title :: string
  label :: string
  line_num :: int

text \<open>\<^verbatim>\<open>TexSection.__init__\<close>: the line number goes through \<^verbatim>\<open>int()\<close>.\<close>

definition TexSection_init :: "string \<Rightarrow> string \<Rightarrow> string \<Rightarrow> string \<Rightarrow> error + TexSection" where
  "TexSection_init lvl ttl lbl num =
     (case py_int num of
        None \<Rightarrow> Inl ValueError
      | Some n \<Rightarrow> Inr \<lparr>level = lvl, title = ttl, label = lbl, line_num = n\<rparr>)"

text \<open>The body of the loop of \<^verbatim>\<open>parse_toc\<close>, over the lines still to read.\<close>

fun parse_toc_lines :: "string list \<Rightarrow> TexSection list \<Rightarrow> error + TexSection list" where
  "parse_toc_lines [] sections = Inr sections"
| "parse_toc_lines (line0 # rest) sections =
     (let line = py_strip line0 in
      if line = [] then parse_toc_lines rest sections
      else
        (let parts = map py_strip (py_split CHR '','' line) in
         if length parts = 4 then
           (case parts of
              [lvl, ttl, lbl, num] \<Rightarrow>
                (case TexSection_init lvl ttl lbl num of
                   Inl e \<Rightarrow> Inl e
                 | Inr s \<Rightarrow> parse_toc_lines rest (sections @ [s]))
            | _ \<Rightarrow> parse_toc_lines rest sections)
         else parse_toc_lines rest sections))"

definition parse_toc :: "string \<Rightarrow> error + TexSection list" where
  "parse_toc toc_text = parse_toc_lines (file_lines toc_text) []"

section \<open>Configuration\<close>

text \<open>Joining a directory and a relative, normalised file name, as \<^verbatim>\<open>Path.__truediv__\<close> does.\<close>

definition path_join :: "string \<Rightarrow> string \<Rightarrow> string" where
  "path_join dir name = dir @ ''/'' @ name"

definition BASE_DIR :: string where
  "BASE_DIR = ''/Users/dplane/git_repos/agentic_dissertation/Overleaf_PhD''"

definition OUTPUT_MAIN :: string where
  "OUTPUT_MAIN = path_join BASE_DIR ''main_w_sub.tex''"

definition SECTIONS_DIR :: string where
  "SECTIONS_DIR = path_join BASE_DIR ''sections''"

text \<open>The dictionary literal, in insertion order, which is the order of \<^verbatim>\<open>.items()\<close>.\<close>

definition LABEL_TO_FILENAME :: "(string \<times> string) list" where
  "LABEL_TO_FILENAME =
     [(''significance_of_study'', ''significance_of_study.tex''),
      (''problem_statement1'', ''problem_statement1.tex''),
      (''perception_geometry'', ''perception_geometry.tex''),
      (''sensors'', ''sensors.tex''),
      (''sec:Atlas_LAN'', ''hardware.tex''),
      (''sec:calibration'', ''calibration.tex''),
      (''sec:sensor_data_dataset'', ''sensor_data.tex''),
      (''yolo'', ''yolo.tex''),
      (''gbcache'', ''gbcache.tex''),
      (''late_fusion'', ''late_fusion.tex''),
      (''performance'', ''performance.tex'')]"

text \<open>\<^verbatim>\<open>d[k]\<close> on a dictionary given by its items.\<close>

definition dict_getitem :: "('k \<times> 'v) list \<Rightarrow> 'k \<Rightarrow> error + 'v" where
  "dict_getitem d k = (case map_of d k of None \<Rightarrow> Inl KeyError | Some v \<Rightarrow> Inr v)"

text \<open>\<^verbatim>\<open>k in d\<close>.\<close>

definition dict_contains :: "('k \<times> 'v) list \<Rightarrow> 'k \<Rightarrow> bool" where
  "dict_contains d k = (map_of d k \<noteq> None)"

section \<open>Range resolver and extractor\<close>

text \<open>An end line is an integer or \<^verbatim>\<open>float('inf')\<close>.\<close>

datatype bound = Fin int | PInf

definition bound_pred :: "bound \<Rightarrow> bound" where
  "bound_pred b = (case b of Fin e \<Rightarrow> Fin (e - 1) | PInf \<Rightarrow> PInf)"

definition level_hierarchy :: "string list" where
  "level_hierarchy = [''chapter'', ''section'', ''subsection'', ''subsubsection'']"

text \<open>
  The \<^verbatim>\<open>for\<close> loop of \<^verbatim>\<open>find_section_content_range\<close> over the indices still to visit; leaving
  the loop with \<^verbatim>\<open>end_line\<close> still \<^verbatim>\<open>None\<close> gives infinity.
\<close>

fun range_loop :: "TexSection list \<Rightarrow> nat \<Rightarrow> int list \<Rightarrow> error + bound" where
  "range_loop sections current_level_idx [] = Inr PInf"
| "range_loop sections current_level_idx (i # rest) =
     (case py_getitem sections i of
        Inl e \<Rightarrow> Inl e
      | Inr next_section \<Rightarrow>
          (case list_index level_hierarchy (level next_section) of
             Inl e \<Rightarrow> Inl e
           | Inr next_level_idx \<Rightarrow>
               if next_level_idx \<le> current_level_idx
               then Inr (Fin (line_num next_section - 1))
               else range_loop sections current_level_idx rest))"

definition find_section_content_range :: "TexSection list \<Rightarrow> int \<Rightarrow> error + (int \<times> bound)" where
  "find_section_content_range sections section_idx =
     (case py_getitem sections section_idx of
        Inl e \<Rightarrow> Inl e
      | Inr section \<Rightarrow>
          (let start_line = line_num section; current_level = level section in
           case list_index level_hierarchy current_level of
             Inl e \<Rightarrow> Inl e
           | Inr current_level_idx \<Rightarrow>
               (case range_loop sections current_level_idx
                       [section_idx + 1 .. int (length sections) - 1] of
                  Inl e \<Rightarrow> Inl e
                | Inr end_line \<Rightarrow> Inr (start_line, end_line))))"

definition extract_lines :: "string list \<Rightarrow> int \<Rightarrow> bound \<Rightarrow> string list" where
  "extract_lines lines start end =
     (let start_idx = start - 1;
          end_idx = (case end of Fin e \<Rightarrow> min e (int (length lines)) | PInf \<Rightarrow> int (length lines))
      in py_slice lines start_idx end_idx)"

section \<open>Files, console, and the subfile writer\<close>

text \<open>
  The world a run acts on: the contents of the files by path, and the lines printed so far.
  Opening a file for writing replaces its contents; \<^verbatim>\<open>writelines\<close> writes the strings one
  after the other.
\<close>

record world =
  files :: "string \<rightharpoonup> string"
  stdout :: "string list"

definition print :: "string \<Rightarrow> world \<Rightarrow> world" where
  "print s w = w\<lparr>stdout := stdout w @ [s]\<rparr>"

definition write_lines :: "string \<Rightarrow> string list \<Rightarrow> world \<Rightarrow> world" where
  "write_lines path content w = w\<lparr>files := (files w)(path \<mapsto> concat content)\<rparr>"

definition subfile_header :: "string list" where
  "subfile_header =
     [bs # ''documentclass[../main.tex]{subfiles}\<newline>'',
      bs # ''graphicspath{{'' @ bs # ''subfix{../Images/}}}\<newline>'',
      bs # ''begin{document}\<newline>'',
      ''\<newline>'']"

definition subfile_footer :: string where
  "subfile_footer = nl # bs # ''end{document}\<newline>''"

definition create_subfile :: "string \<Rightarrow> string list \<Rightarrow> world \<Rightarrow> world" where
  "create_subfile filename content w =
     (let subfile_content = subfile_header @ content @ [subfile_footer];
          filepath = path_join SECTIONS_DIR filename;
          w1 = write_lines filepath subfile_content w
      in print (''  Created: '' @ filename) w1)"

section \<open>Master-file reassembler\<close>

fun find_preamble_end_loop :: "(nat \<times> string) list \<Rightarrow> int" where
  "find_preamble_end_loop [] = 1"
| "find_preamble_end_loop ((i, line) # rest) =
     (if startswith (py_strip line) (bs # ''begin{document}'') then int i + 1
      else find_preamble_end_loop rest)"

definition find_preamble_end :: "string list \<Rightarrow> int" where
  "find_preamble_end lines = find_preamble_end_loop (enumerate 0 lines)"

fun find_frontmatter_end_loop :: "string list \<Rightarrow> (nat \<times> string) list \<Rightarrow> int" where
  "find_frontmatter_end_loop lines [] = find_preamble_end lines"
| "find_frontmatter_end_loop lines ((i, line) # rest) =
     (if contains line (bs # ''mainmatter'') \<or> startswith (py_strip line) (bs # ''chapter{'')
      then int i + 1
      else find_frontmatter_end_loop lines rest)"

definition find_frontmatter_end :: "string list \<Rightarrow> int" where
  "find_frontmatter_end lines = find_frontmatter_end_loop lines (enumerate 0 lines)"

text \<open>Steps 1 and 2 of \<^verbatim>\<open>generate_main_w_sub\<close>: preamble, package line, front matter.\<close>

definition copy_preamble_frontmatter :: "string list \<Rightarrow> string list" where
  "copy_preamble_frontmatter lines =
     (let preamble_end = find_preamble_end lines;
          preamble = py_slice_to lines (preamble_end - 1);
          output1 = preamble
            @ [bs # ''usepackage{subfiles} % Best loaded last in the preamble\<newline>'']
            @ [nl # bs # ''begin{document}\<newline>\<newline>''];
          frontmatter_end = find_frontmatter_end lines;
          frontmatter = extract_lines lines (preamble_end + 1) (Fin (frontmatter_end - 1))
      in output1 @ frontmatter @ [nl # bs # ''mainmatter\<newline>'' @ bs # ''newpage\<newline>''])"

text \<open>The inner loop of step 3 that emits one inclusion directive per mapped section.\<close>

fun subfile_commands :: "(nat \<times> TexSection) list \<Rightarrow> string list \<Rightarrow> error + string list" where
  "subfile_commands [] output = Inr output"
| "subfile_commands ((sect_idx, sect) # rest) output =
     (case dict_getitem LABEL_TO_FILENAME (label sect) of
        Inl e \<Rightarrow> Inl e
      | Inr filename \<Rightarrow>
          subfile_commands rest
            (output @ [bs # ''subfile{sections/'' @ py_replace ''.tex'' [] filename @ ''}\<newline>'']))"

definition chapter_heading :: "TexSection \<Rightarrow> string" where
  "chapter_heading chapter =
     (if label chapter \<noteq> []
      then bs # ''chapter{'' @ title chapter @ ''} '' @ bs # ''label{'' @ label chapter @ ''}\<newline>\<newline>''
      else bs # ''chapter{'' @ title chapter @ ''}\<newline>\<newline>'')"

definition is_chapter_line :: "string \<Rightarrow> bool" where
  "is_chapter_line l = startswith (py_strip l) (bs # ''chapter{'')"

text \<open>
  Step 3, over the chapters still to process. Each entry pairs a chapter's index with the
  record at that index; the index of the following chapter is the head of the rest, or the
  number of records when there is none.
\<close>

fun process_chapters ::
  "string list \<Rightarrow> TexSection list \<Rightarrow> (nat \<times> TexSection) list \<Rightarrow> string list \<Rightarrow> error + string list" where
  "process_chapters lines sections [] output = Inr output"
| "process_chapters lines sections ((chapter_idx, chapter) # rest) output =
     (let output1 = output @ [chapter_heading chapter];
          next_chapter_idx = (case rest of [] \<Rightarrow> length sections | (n, c) # others \<Rightarrow> n);
          chapter_sections =
            filter (\<lambda>(i, s). level s = ''section'')
              (enumerate (chapter_idx + 1)
                 (py_slice sections (int chapter_idx + 1) (int next_chapter_idx)));
          subfile_sections =
            filter (\<lambda>(i, s). dict_contains LABEL_TO_FILENAME (label s)) chapter_sections
      in if subfile_sections \<noteq> [] then
           (let first_section_line =
                  (case chapter_sections of [] \<Rightarrow> PInf | (i, s) # others \<Rightarrow> Fin (line_num s));
                intro = extract_lines lines (line_num chapter) (bound_pred first_section_line);
                intro1 = filter (\<lambda>l. \<not> is_chapter_line l) intro;
                output2 = output1 @ intro1 @ [''\<newline>'']
            in case subfile_commands subfile_sections output2 of
                 Inl e \<Rightarrow> Inl e
               | Inr output3 \<Rightarrow> process_chapters lines sections rest (output3 @ [''\<newline>'']))
         else
           (let start_line = line_num chapter;
                end_line = (case rest of
                              [] \<Rightarrow> int (length lines)
                            | (n, c) # others \<Rightarrow> line_num c - 1);
                content = extract_lines lines start_line (Fin end_line);
                content1 = filter (\<lambda>l. \<not> is_chapter_line l) content
            in process_chapters lines sections rest (output1 @ content1 @ [''\<newline>''])))"

text \<open>The \<^verbatim>\<open>while\<close> loop of step 4.\<close>

function skip_to_chapter :: "TexSection list \<Rightarrow> nat \<Rightarrow> nat" where
  "skip_to_chapter sections next_item_idx =
     (if next_item_idx < length sections \<and> level (sections ! next_item_idx) \<noteq> ''chapter''
      then skip_to_chapter sections (Suc next_item_idx)
      else next_item_idx)"
  by pat_completeness auto
termination
  by (relation "measure (\<lambda>(sections, i). length sections - i)") auto

declare skip_to_chapter.simps [simp del]

fun find_backmatter :: "(nat \<times> string) list \<Rightarrow> int option" where
  "find_backmatter [] = None"
| "find_backmatter ((i, line) # rest) =
     (if contains line (bs # ''backmatter'') \<or> contains line (bs # ''bibliography'')
      then Some (int i + 1)
      else find_backmatter rest)"

text \<open>Step 4: the lines appended after the chapters.\<close>

definition copy_backmatter ::
  "string list \<Rightarrow> TexSection list \<Rightarrow> (nat \<times> TexSection) list \<Rightarrow> string list" where
  "copy_backmatter lines sections chapter_indices =
     (if chapter_indices \<noteq> [] then
        (let last_chapter_idx = fst (last chapter_indices);
             next_item_idx = skip_to_chapter sections (last_chapter_idx + 1);
             backmatter_start =
               (if next_item_idx < length sections then line_num (sections ! next_item_idx)
                else (case find_backmatter (enumerate 0 lines) of
                        Some b \<Rightarrow> b
                      | None \<Rightarrow> int (length lines)))
         in py_slice_from lines (backmatter_start - 1))
      else [])"

definition chapter_entries :: "TexSection list \<Rightarrow> (nat \<times> TexSection) list" where
  "chapter_entries sections = filter (\<lambda>(i, s). level s = ''chapter'') (enumerate 0 sections)"

text \<open>The list \<^verbatim>\<open>output\<close> of \<^verbatim>\<open>generate_main_w_sub\<close> when it is written.\<close>

definition main_w_sub_lines :: "string list \<Rightarrow> TexSection list \<Rightarrow> error + string list" where
  "main_w_sub_lines lines sections =
     (let output2 = copy_preamble_frontmatter lines;
          chapter_indices = chapter_entries sections
      in case process_chapters lines sections chapter_indices output2 of
           Inl e \<Rightarrow> Inl e
         | Inr output3 \<Rightarrow> Inr (output3 @ copy_backmatter lines sections chapter_indices))"

definition generate_main_w_sub :: "string list \<Rightarrow> TexSection list \<Rightarrow> world \<Rightarrow> world \<times> error option" where
  "generate_main_w_sub lines sections w =
     (case main_w_sub_lines lines sections of
        Inl e \<Rightarrow> (w, Some e)
      | Inr output \<Rightarrow>
          (print (''\<newline>Created: main_w_sub.tex'') (write_lines OUTPUT_MAIN output w), None))"

section \<open>The run\<close>

text \<open>\<^verbatim>\<open>next((i for i, s in enumerate(sections) if s.label == label), None)\<close>.\<close>

fun first_with_label :: "string \<Rightarrow> (nat \<times> TexSection) list \<Rightarrow> nat option" where
  "first_with_label lbl [] = None"
| "first_with_label lbl ((i, s) # rest) = (if label s = lbl then Some i else first_with_label lbl rest)"

definition warning :: "string \<Rightarrow> string" where
  "warning lbl = ''  WARNING: Label '' @ [CHR 0x27] @ lbl @ [CHR 0x27] @ '' not found in toc_main.txt''"

text \<open>
  The loop of \<^verbatim>\<open>main\<close> over the entries of the mapping still to process. An error raised by
  the range resolver ends the run; the world reached so far is what remains.
\<close>

fun subfile_loop ::
  "(string \<times> string) list \<Rightarrow> TexSection list \<Rightarrow> string list \<Rightarrow> world \<Rightarrow> world \<times> error option" where
  "subfile_loop [] sections lines w = (w, None)"
| "subfile_loop ((lbl, filename) # rest) sections lines w =
     (case first_with_label lbl (enumerate 0 sections) of
        None \<Rightarrow> subfile_loop rest sections lines (print (warning lbl) w)
      | Some section_idx \<Rightarrow>
          (case find_section_content_range sections (int section_idx) of
             Inl e \<Rightarrow> (w, Some e)
           | Inr (start, end) \<Rightarrow>
               (let content = extract_lines lines start end
                in subfile_loop rest sections lines (create_subfile filename content w))))"

text \<open>
  \<^verbatim>\<open>main\<close>, given the text of the table of contents and the lines of the master file as
  \<^verbatim>\<open>readlines\<close> returns them. Creating the output directory leaves files and console as they
  are. The result pairs the world the run leaves with the error that ended it, if any.
\<close>

definition main :: "string \<Rightarrow> string list \<Rightarrow> world \<Rightarrow> world \<times> error option" where
  "main toc_text lines w0 =
     (let w1 = print ''LaTeX Subfile Splitter'' w0;
          w2 = print (replicate 50 CHR ''='') w1;
          w3 = print ''\<newline>1. Parsing toc_main.txt...'' w2
      in case parse_toc toc_text of
           Inl e \<Rightarrow> (w3, Some e)
         | Inr sections \<Rightarrow>
             (let w4 = print (''   Found '' @ py_str_nat (length sections) @ '' sections'') w3;
                  w5 = print ''\<newline>2. Reading main.tex...'' w4;
                  w6 = print (''   Read '' @ py_str_nat (length lines) @ '' lines'') w5;
                  w7 = print ''\<newline>3. Generating subfiles...'' w6
              in case subfile_loop LABEL_TO_FILENAME sections lines w7 of
                   (w8, Some e) \<Rightarrow> (w8, Some e)
                 | (w8, None) \<Rightarrow>
                     (let w9 = print ''\<newline>4. Generating main_w_sub.tex...'' w8
                      in case generate_main_w_sub lines sections w9 of
                           (w10, Some e) \<Rightarrow> (w10, Some e)
                         | (w10, None) \<Rightarrow>
                             (let w11 = print (nl # replicate 50 CHR ''='') w10;
                                  w12 = print ''Complete!'' w11;
                                  w13 = print (''Created '' @ py_str_nat (length LABEL_TO_FILENAME)
                                                 @ '' subfiles in: '' @ SECTIONS_DIR) w12
                              in (print (''Created main file: '' @ OUTPUT_MAIN) w13, None)))))"

section \<open>Vocabulary of the specification\<close>

text \<open>A line of text: one terminator, at its end.\<close>

definition is_line :: "string \<Rightarrow> bool" where
  "is_line s = (s \<noteq> [] \<and> last s = nl \<and> nl \<notin> set (butlast s))"

text \<open>
  The rank of a nesting level is its position in the hierarchy, outermost first; a level
  outside the hierarchy has no rank and is given the number past the innermost one.
\<close>

definition known_level :: "string \<Rightarrow> bool" where
  "known_level l = (l \<in> set level_hierarchy)"

definition level_rank :: "string \<Rightarrow> nat" where
  "level_rank l = (case list_index level_hierarchy l of Inr n \<Rightarrow> n | Inl e \<Rightarrow> length level_hierarchy)"

text \<open>The loop of the range resolver, seen on the records it visits instead of their indices.\<close>

fun scan_records :: "nat \<Rightarrow> TexSection list \<Rightarrow> error + bound" where
  "scan_records c [] = Inr PInf"
| "scan_records c (s # rest) =
     (case list_index level_hierarchy (level s) of
        Inl e \<Rightarrow> Inl e
      | Inr n \<Rightarrow> if n \<le> c then Inr (Fin (line_num s - 1)) else scan_records c rest)"

text \<open>
  The content range in the words of the specification: the start line is the target's line
  number; the end line is one less than the line number of the first later record whose rank
  is at most the target's, and unbounded when there is no such record.
\<close>

definition spec_range :: "TexSection list \<Rightarrow> nat \<Rightarrow> int \<times> bound" where
  "spec_range sections idx =
     (line_num (sections ! idx),
      case find (\<lambda>s. level_rank (level s) \<le> level_rank (level (sections ! idx)))
             (drop (Suc idx) sections) of
        None \<Rightarrow> PInf
      | Some s \<Rightarrow> Fin (line_num s - 1))"

text \<open>The records a forward scan from the target passes over before it can stop.\<close>

definition scanned_past :: "TexSection list \<Rightarrow> nat \<Rightarrow> TexSection list" where
  "scanned_past sections idx =
     takeWhile (\<lambda>s. level_rank (level (sections ! idx)) < level_rank (level s))
       (drop (Suc idx) sections)"

text \<open>A world before any run, and a world laid over another: later writes win, output follows.\<close>

definition empty_world :: world where
  "empty_world = \<lparr>files = Map.empty, stdout = []\<rparr>"

definition overlay :: "world \<Rightarrow> world \<Rightarrow> world" where
  "overlay w d = \<lparr>files = files w ++ files d, stdout = stdout w @ stdout d\<rparr>"

text \<open>Whether a label occurs among the records, and the label's first record.\<close>

definition label_found :: "TexSection list \<Rightarrow> string \<Rightarrow> bool" where
  "label_found sections lbl = (first_with_label lbl (enumerate 0 sections) \<noteq> None)"

text \<open>Whether the range of the first record carrying a label can be resolved.\<close>

definition resolvable :: "TexSection list \<Rightarrow> string \<Rightarrow> bool" where
  "resolvable sections lbl =
     (case first_with_label lbl (enumerate 0 sections) of
        None \<Rightarrow> True
      | Some idx \<Rightarrow> (case find_section_content_range sections (int idx) of
                      Inl e \<Rightarrow> False | Inr r \<Rightarrow> True))"

text \<open>The text a subfile holds for a label: the template around the label's content range.\<close>

definition subfile_text :: "TexSection list \<Rightarrow> string list \<Rightarrow> string \<Rightarrow> string option" where
  "subfile_text sections lines lbl =
     (case first_with_label lbl (enumerate 0 sections) of
        None \<Rightarrow> None
      | Some idx \<Rightarrow> (case find_section_content_range sections (int idx) of
                      Inl e \<Rightarrow> None
                    | Inr (start, end) \<Rightarrow>
                        Some (concat (subfile_header @ extract_lines lines start end @ [subfile_footer]))))"

text \<open>The console line a completed run prints for an entry of the mapping.\<close>

definition entry_line :: "TexSection list \<Rightarrow> string \<times> string \<Rightarrow> string" where
  "entry_line sections e =
     (if label_found sections (fst e) then ''  Created: '' @ snd e else warning (fst e))"

text \<open>The lines the reassembler has emitted when the chapters are done, before step 4.\<close>

definition chapters_output :: "string list \<Rightarrow> TexSection list \<Rightarrow> string list" where
  "chapters_output lines sections =
     (case process_chapters lines sections (chapter_entries sections)
             (copy_preamble_frontmatter lines) of
        Inl e \<Rightarrow> []
      | Inr output \<Rightarrow> output)"

text \<open>A line that holds a back-matter or bibliography marker.\<close>

definition is_marker_line :: "string \<Rightarrow> bool" where
  "is_marker_line l = (contains l (bs # ''backmatter'') \<or> contains l (bs # ''bibliography''))"

text \<open>
  What step 4 appends in the words of the specification: everything from the first marker
  line after line \<open>n\<close>, the line of the last chapter record, to the end of the file, and
  nothing when no such line exists.
\<close>

definition spec_backmatter :: "string list \<Rightarrow> int \<Rightarrow> string list" where
  "spec_backmatter lines n = dropWhile (\<lambda>l. \<not> is_marker_line l) (drop (nat n) lines)"

text \<open>The line of the last chapter record.\<close>

definition last_chapter_line :: "TexSection list \<Rightarrow> int" where
  "last_chapter_line sections = line_num (last (filter (\<lambda>s. level s = ''chapter'') sections))"

text \<open>The fields of a line of the table of contents, and the record four fields stand for.\<close>

definition toc_fields :: "string \<Rightarrow> string list" where
  "toc_fields line = map py_strip (py_split CHR '','' (py_strip line))"

definition toc_record :: "string \<Rightarrow> TexSection" where
  "toc_record line =
     \<lparr>level = toc_fields line ! 0, title = toc_fields line ! 1, label = toc_fields line ! 2,
      line_num = (case py_int (toc_fields line ! 3) of Some n \<Rightarrow> n | None \<Rightarrow> 0)\<rparr>"

text \<open>
  The parser in the words of the specification: one record for each line that is not blank
  and has exactly four fields, nothing for the other lines.
\<close>

definition spec_parse_toc :: "string \<Rightarrow> TexSection list" where
  "spec_parse_toc toc_text =
     map toc_record
       (filter (\<lambda>l. py_strip l \<noteq> [] \<and> length (toc_fields l) = 4) (file_lines toc_text))"

text \<open>What a run prints before its loop, and what it writes and prints after it.\<close>

definition before_loop :: "nat \<Rightarrow> nat \<Rightarrow> world \<Rightarrow> world" where
  "before_loop n k w =
     print ''\<newline>3. Generating subfiles...''
      (print (''   Read '' @ py_str_nat k @ '' lines'')
        (print ''\<newline>2. Reading main.tex...''
          (print (''   Found '' @ py_str_nat n @ '' sections'')
            (print ''\<newline>1. Parsing toc_main.txt...''
              (print (replicate 50 CHR ''='') (print ''LaTeX Subfile Splitter'' w))))))"

definition after_loop :: "string list \<Rightarrow> TexSection list \<Rightarrow> world \<Rightarrow> world" where
  "after_loop lines sections w =
     print (''Created main file: '' @ OUTPUT_MAIN)
       (print (''Created '' @ py_str_nat (length LABEL_TO_FILENAME) @ '' subfiles in: '' @ SECTIONS_DIR)
          (print ''Complete!''
             (print (nl # replicate 50 CHR ''='')
                (print ''\<newline>Created: main_w_sub.tex''
                   (write_lines OUTPUT_MAIN
                      (chapters_output lines sections
                         @ copy_backmatter lines sections (chapter_entries sections))
                      (print ''\<newline>4. Generating main_w_sub.tex...'' w))))))"

text \<open>The table of contents and the records of the round-trip scenario.\<close>

definition roundtrip_toc :: string where
  "roundtrip_toc =
     ''chapter,Intro,ch1,1\<newline>section,Background,significance_of_study,3\<newline>chapter,Methods,ch2,10\<newline>''"

definition roundtrip_records :: "TexSection list" where
  "roundtrip_records =
     [\<lparr>level = ''chapter'', title = ''Intro'', label = ''ch1'', line_num = 1\<rparr>,
      \<lparr>level = ''section'', title = ''Background'', label = ''significance_of_study'', line_num = 3\<rparr>,
      \<lparr>level = ''chapter'', title = ''Methods'', label = ''ch2'', line_num = 10\<rparr>]"

text \<open>
  The table of contents of the round-trip scenario with the quotation marks written out,
  the records it parses to, and a master file of twelve lines.
\<close>

definition dq :: char where
  "dq = CHR 0x22"

definition quoted_roundtrip_toc :: string where
  "quoted_roundtrip_toc =
     ''chapter,'' @ [dq] @ ''Intro'' @ [dq] @ '','' @ [dq] @ ''ch1'' @ [dq] @ '',1\<newline>''
     @ ''section,'' @ [dq] @ ''Background'' @ [dq] @ '','' @ [dq] @ ''significance_of_study'' @ [dq] @ '',3\<newline>''
     @ ''chapter,'' @ [dq] @ ''Methods'' @ [dq] @ '','' @ [dq] @ ''ch2'' @ [dq] @ '',10\<newline>''"

definition quoted_roundtrip_records :: "TexSection list" where
  "quoted_roundtrip_records =
     [\<lparr>level = ''chapter'', title = [dq] @ ''Intro'' @ [dq], label = [dq] @ ''ch1'' @ [dq], line_num = 1\<rparr>,
      \<lparr>level = ''section'', title = [dq] @ ''Background'' @ [dq],
         label = [dq] @ ''significance_of_study'' @ [dq], line_num = 3\<rparr>,
      \<lparr>level = ''chapter'', title = [dq] @ ''Methods'' @ [dq], label = [dq] @ ''ch2'' @ [dq], line_num = 10\<rparr>]"

definition twelve_lines :: "string list" where
  "twelve_lines =
     [''l1\<newline>'', ''l2\<newline>'', ''l3\<newline>'', ''l4\<newline>'', ''l5\<newline>'', ''l6\<newline>'',
      ''l7\<newline>'', ''l8\<newline>'', ''l9\<newline>'', ''l10\<newline>'', ''l11\<newline>'', ''l12\<newline>'']"

text \<open>
  A master file that names its bibliography style in the preamble, and its one record, a
  chapter that no record follows.
\<close>

definition bibstyle_lines :: "string list" where
  "bibstyle_lines =
     [bs # ''documentclass{book}\<newline>'', bs # ''bibliographystyle{plain}\<newline>'',
      bs # ''begin{document}\<newline>'', bs # ''chapter{A}\<newline>'', ''text\<newline>'',
      bs # ''bibliography{refs}\<newline>'']"

definition bibstyle_sections :: "TexSection list" where
  "bibstyle_sections = [\<lparr>level = ''chapter'', title = ''A'', label = '''', line_num = 4\<rparr>]"

section \<open>The range resolver against its specification\<close>

lemma py_getitem_nat: "k < length xs \<Longrightarrow> py_getitem xs (int k) = Inr (xs ! k)"
  by (simp add: py_getitem_def Let_def)

lemma range_loop_scan:
  "k \<le> length sections \<Longrightarrow>
   range_loop sections c [int k .. int (length sections) - 1] = scan_records c (drop k sections)"
proof (induction "length sections - k" arbitrary: k)
  case 0
  then show ?case by simp
next
  case (Suc d)
  then have lt: "k < length sections" by arith
  have up: "[int k .. int (length sections) - 1] = int k # [int k + 1 .. int (length sections) - 1]"
    using lt by (subst upto_rec1) simp_all
  have dr: "drop k sections = sections ! k # drop (Suc k) sections"
    using lt by (simp add: Cons_nth_drop_Suc)
  have d: "d = length sections - Suc k" and le: "Suc k \<le> length sections"
    using Suc.hyps(2) lt by arith+
  have sk: "int k + 1 = int (Suc k)" by simp
  have ih: "range_loop sections c [int k + 1 .. int (length sections) - 1]
              = scan_records c (drop (Suc k) sections)"
    unfolding sk by (rule Suc.hyps(1) [OF d le])
  show ?case
    unfolding up dr using lt ih by (simp add: py_getitem_nat split: sum.splits)
qed

lemma list_index_absent: "x \<notin> set xs \<Longrightarrow> list_index xs x = Inl ValueError"
  by (induction xs) auto

lemma list_index_present: "x \<in> set xs \<Longrightarrow> \<exists>n. list_index xs x = Inr n \<and> n < length xs"
  by (induction xs) auto

lemma list_index_error: "list_index xs x = Inl e \<Longrightarrow> e = ValueError \<and> x \<notin> set xs"
  by (induction xs arbitrary: e) (auto split: if_splits sum.splits)

lemma rank_known: "known_level l \<Longrightarrow> list_index level_hierarchy l = Inr (level_rank l) \<and> level_rank l < 4"
  unfolding known_level_def level_rank_def
  using list_index_present [of l level_hierarchy] by (auto simp: level_hierarchy_def)

lemma rank_unknown: "\<not> known_level l \<Longrightarrow> list_index level_hierarchy l = Inl ValueError \<and> level_rank l = 4"
  unfolding known_level_def level_rank_def
  using list_index_absent [of l level_hierarchy] by (auto simp: level_hierarchy_def)

lemma find_section_content_range_scan:
  assumes "idx < length sections"
  shows "find_section_content_range sections (int idx) =
     (case list_index level_hierarchy (level (sections ! idx)) of
        Inl e \<Rightarrow> Inl e
      | Inr c \<Rightarrow> (case scan_records c (drop (Suc idx) sections) of
                    Inl e \<Rightarrow> Inl e
                  | Inr b \<Rightarrow> Inr (line_num (sections ! idx), b)))"
proof -
  have "range_loop sections c [int idx + 1 .. int (length sections) - 1]
          = scan_records c (drop (Suc idx) sections)" for c
    using range_loop_scan [of "Suc idx" sections c] assms by (simp add: add.commute)
  then show ?thesis
    using assms
    by (simp add: find_section_content_range_def py_getitem_nat Let_def split: sum.splits)
qed

lemma scan_records_known:
  "list_all (\<lambda>s. known_level (level s)) rs \<Longrightarrow>
   scan_records c rs = Inr (case find (\<lambda>s. level_rank (level s) \<le> c) rs of
                              None \<Rightarrow> PInf | Some s \<Rightarrow> Fin (line_num s - 1))"
  by (induction rs) (auto dest: rank_known)

lemma scan_records_result:
  "c < 4 \<Longrightarrow> scan_records c rs = Inr b \<Longrightarrow>
   b = (case find (\<lambda>s. level_rank (level s) \<le> c) rs of
          None \<Rightarrow> PInf | Some s \<Rightarrow> Fin (line_num s - 1))"
proof (induction rs)
  case Nil
  then show ?case by simp
next
  case (Cons s rs)
  show ?case
  proof (cases "known_level (level s)")
    case True
    then show ?thesis using Cons rank_known [OF True] by (auto split: if_splits)
  next
    case False
    then show ?thesis using Cons rank_unknown [OF False] by simp
  qed
qed

lemma scan_records_error:
  "c < 4 \<Longrightarrow> list_ex (\<lambda>s. \<not> known_level (level s)) (takeWhile (\<lambda>s. c < level_rank (level s)) rs) \<Longrightarrow>
   scan_records c rs = Inl ValueError"
proof (induction rs)
  case Nil
  then show ?case by simp
next
  case (Cons s rs)
  show ?case
  proof (cases "known_level (level s)")
    case True
    then show ?thesis using Cons rank_known [OF True] by (auto split: if_splits)
  next
    case False
    then show ?thesis using rank_unknown [OF False] by simp
  qed
qed

lemma scan_records_only_ValueError: "scan_records c rs = Inl e \<Longrightarrow> e = ValueError"
  by (induction rs) (auto split: sum.splits if_splits dest: list_index_error)


lemma slice_bound_nat: "slice_bound n (int k) = min n k"
  by (simp add: slice_bound_def)

lemma extract_lines_unbounded:
  "1 \<le> start \<Longrightarrow> extract_lines lines start PInf = drop (nat (start - 1)) lines"
  by (cases "nat (start - 1) \<le> length lines")
     (auto simp: extract_lines_def py_slice_def slice_bound_def Let_def min_def)

lemma resolver_known:
  assumes "idx < length sections"
    and known: "list_all (\<lambda>s. known_level (level s)) (drop idx sections)"
  shows "find_section_content_range sections (int idx) = Inr (spec_range sections idx)"
proof -
  have dr: "drop idx sections = sections ! idx # drop (Suc idx) sections"
    using assms(1) by (simp add: Cons_nth_drop_Suc)
  from known have k0: "known_level (level (sections ! idx))"
    and ks: "list_all (\<lambda>s. known_level (level s)) (drop (Suc idx) sections)"
    unfolding dr by simp_all
  show ?thesis
    using rank_known [OF k0] scan_records_known [OF ks]
    by (simp add: find_section_content_range_scan [OF assms(1)] spec_range_def)
qed

section \<open>The loop over the mapping\<close>

lemma first_with_label_Some:
  "first_with_label lbl (enumerate k sections) = Some i \<Longrightarrow>
   k \<le> i \<and> i < k + length sections \<and> label (sections ! (i - k)) = lbl"
proof (induction sections arbitrary: k)
  case Nil
  then show ?case by simp
next
  case (Cons s sections)
  show ?case
  proof (cases "label s = lbl")
    case True
    then show ?thesis using Cons.prems by simp
  next
    case False
    then have "first_with_label lbl (enumerate (Suc k) sections) = Some i"
      using Cons.prems by simp
    from Cons.IH [OF this] show ?thesis by (auto simp: nth_Cons')
  qed
qed

lemma first_with_label_None:
  "(first_with_label lbl (enumerate k sections) = None) = (lbl \<notin> set (map label sections))"
  by (induction sections arbitrary: k) auto

lemma resolver_only_ValueError:
  "idx < length sections \<Longrightarrow> find_section_content_range sections (int idx) = Inl e \<Longrightarrow> e = ValueError"
  by (auto simp: find_section_content_range_scan split: sum.splits
           dest: list_index_error scan_records_only_ValueError)

lemma path_join_inject [simp]: "(path_join d a = path_join d b) = (a = b)"
  by (simp add: path_join_def)

lemma subfile_loop_untouched:
  "p \<notin> set (map (\<lambda>(lbl, fn). path_join SECTIONS_DIR fn) m) \<Longrightarrow>
   files (fst (subfile_loop m sections lines w)) p = files w p"
  by (induction m arbitrary: w)
     (auto simp: print_def create_subfile_def write_lines_def Let_def split: option.splits sum.splits)

lemma subfile_loop_unfound:
  "list_all (\<lambda>(lbl, fn). label_found sections lbl \<longrightarrow> path_join SECTIONS_DIR fn \<noteq> p) m \<Longrightarrow>
   files (fst (subfile_loop m sections lines w)) p = files w p"
  by (induction m arbitrary: w)
     (auto simp: print_def create_subfile_def write_lines_def Let_def label_found_def
           split: option.splits sum.splits)

lemma subfile_loop_completes:
  "list_all (\<lambda>(lbl, fn). resolvable sections lbl) m \<Longrightarrow> snd (subfile_loop m sections lines w) = None"
  by (induction m arbitrary: w) (auto simp: resolvable_def split: option.splits sum.splits)

lemma subfile_loop_aborts:
  "list_ex (\<lambda>(lbl, fn). \<not> resolvable sections lbl) m \<Longrightarrow>
   snd (subfile_loop m sections lines w) = Some ValueError"
proof (induction m arbitrary: w)
  case Nil
  then show ?case by simp
next
  case (Cons a m)
  obtain lbl fn where a: "a = (lbl, fn)" by (cases a)
  show ?case
  proof (cases "first_with_label lbl (enumerate 0 sections)")
    case None
    then show ?thesis using Cons a by (simp add: resolvable_def)
  next
    case (Some idx)
    then have idx: "idx < length sections" using first_with_label_Some [of lbl 0 sections idx] by simp
    show ?thesis
    proof (cases "find_section_content_range sections (int idx)")
      case (Inl e)
      then show ?thesis using Some a resolver_only_ValueError [OF idx Inl] by simp
    next
      case (Inr r)
      then show ?thesis using Some a Cons by (cases r) (simp add: resolvable_def)
    qed
  qed
qed

lemma subfile_loop_completes_iff:
  "(snd (subfile_loop m sections lines w) = None) = list_all (\<lambda>(lbl, fn). resolvable sections lbl) m"
proof (cases "list_all (\<lambda>(lbl, fn). resolvable sections lbl) m")
  case True
  then show ?thesis using subfile_loop_completes by simp
next
  case False
  then have "list_ex (\<lambda>(lbl, fn). \<not> resolvable sections lbl) m"
    by (auto simp: list_all_iff list_ex_iff)
  from subfile_loop_aborts [OF this] False show ?thesis by simp
qed

lemma subfile_loop_file:
  "distinct (map snd m) \<Longrightarrow> snd (subfile_loop m sections lines w) = None \<Longrightarrow>
   (lbl, fn) \<in> set m \<Longrightarrow> label_found sections lbl \<Longrightarrow>
   files (fst (subfile_loop m sections lines w)) (path_join SECTIONS_DIR fn)
     = subfile_text sections lines lbl"
proof (induction m arbitrary: w)
  case Nil
  then show ?case by simp
next
  case (Cons a m)
  obtain lbl' fn' where a: "a = (lbl', fn')" by (cases a)
  show ?case
  proof (cases "(lbl, fn) = (lbl', fn')")
    case True
    then have nin: "path_join SECTIONS_DIR fn \<notin> set (map (\<lambda>(lbl, fn). path_join SECTIONS_DIR fn) m)"
      using Cons.prems(1) a by (auto simp: image_iff)
    obtain idx where idx: "first_with_label lbl (enumerate 0 sections) = Some idx"
      using Cons.prems(4) by (auto simp: label_found_def)
    show ?thesis
    proof (cases "find_section_content_range sections (int idx)")
      case (Inl e)
      then show ?thesis using Cons.prems(2) a True idx by simp
    next
      case (Inr r)
      obtain st en where r: "r = (st, en)" by (cases r)
      show ?thesis
        using a True idx Inr r subfile_loop_untouched [OF nin]
        by (simp add: subfile_text_def create_subfile_def write_lines_def print_def Let_def)
    qed
  next
    case False
    then have mem: "(lbl, fn) \<in> set m" using Cons.prems(3) a by auto
    have d: "distinct (map snd m)" using Cons.prems(1) by simp
    show ?thesis
    proof (cases "first_with_label lbl' (enumerate 0 sections)")
      case None
      then show ?thesis
        using Cons.IH [OF d _ mem Cons.prems(4)] Cons.prems(2) a by simp
    next
      case (Some idx')
      show ?thesis
      proof (cases "find_section_content_range sections (int idx')")
        case (Inl e)
        then show ?thesis using Cons.prems(2) a Some by simp
      next
        case (Inr r)
        obtain st en where r: "r = (st, en)" by (cases r)
        show ?thesis
          using Cons.IH [OF d _ mem Cons.prems(4)] Cons.prems(2) a Some Inr r by simp
      qed
    qed
  qed
qed


lemma subfile_loop_stdout:
  "snd (subfile_loop m sections lines w) = None \<Longrightarrow>
   stdout (fst (subfile_loop m sections lines w)) = stdout w @ map (entry_line sections) m"
  by (induction m arbitrary: w)
     (auto simp: entry_line_def label_found_def print_def create_subfile_def write_lines_def Let_def
           split: option.splits sum.splits)

section \<open>The reassembler\<close>

lemma subfile_commands_ok:
  "list_all (\<lambda>(i, s). dict_contains LABEL_TO_FILENAME (label s)) xs \<Longrightarrow>
   \<exists>out. subfile_commands xs acc = Inr out"
proof (induction xs arbitrary: acc)
  case Nil
  then show ?case by simp
next
  case (Cons a xs)
  obtain i s where a: "a = (i, s)" by (cases a)
  from Cons.prems a obtain fn where fn: "map_of LABEL_TO_FILENAME (label s) = Some fn"
    by (auto simp: dict_contains_def)
  from Cons.prems have "list_all (\<lambda>(i, s). dict_contains LABEL_TO_FILENAME (label s)) xs" by simp
  from Cons.IH [OF this] show ?case using a fn by (simp add: dict_getitem_def)
qed

lemma subfile_commands_filter_ok:
  "subfile_commands (filter (\<lambda>(i, s). dict_contains LABEL_TO_FILENAME (label s)) xs) acc \<noteq> Inl e"
proof -
  have "list_all (\<lambda>(i, s). dict_contains LABEL_TO_FILENAME (label s))
          (filter (\<lambda>(i, s). dict_contains LABEL_TO_FILENAME (label s)) xs)"
    by (auto simp: list_all_iff)
  from subfile_commands_ok [OF this, of acc] show ?thesis by auto
qed

lemma process_chapters_ok: "\<exists>out. process_chapters lines sections chs acc = Inr out"
proof (induction chs arbitrary: acc)
  case Nil
  then show ?case by simp
next
  case (Cons a chs)
  obtain ci ch where a: "a = (ci, ch)" by (cases a)
  show ?case
    unfolding a
    apply (simp only: process_chapters.simps Let_def)
    apply (simp only: split: if_splits sum.splits)
    using Cons.IH subfile_commands_filter_ok apply blast
    done
qed

lemma main_w_sub_lines_chapters_output:
  "main_w_sub_lines lines sections
     = Inr (chapters_output lines sections @ copy_backmatter lines sections (chapter_entries sections))"
  using process_chapters_ok [of lines sections "chapter_entries sections" "copy_preamble_frontmatter lines"]
  by (auto simp: main_w_sub_lines_def chapters_output_def Let_def)

lemma generate_main_w_sub_eq:
  "generate_main_w_sub lines sections w =
     (print ''\<newline>Created: main_w_sub.tex''
        (write_lines OUTPUT_MAIN
           (chapters_output lines sections @ copy_backmatter lines sections (chapter_entries sections)) w),
      None)"
  by (simp add: generate_main_w_sub_def main_w_sub_lines_chapters_output)

lemma skip_to_chapter_end:
  "i \<le> length sections \<Longrightarrow> (\<forall>j. i \<le> j \<and> j < length sections \<longrightarrow> level (sections ! j) \<noteq> ''chapter'') \<Longrightarrow>
   skip_to_chapter sections i = length sections"
proof (induction sections i rule: skip_to_chapter.induct)
  case (1 sections i)
  show ?case
  proof (cases "i < length sections")
    case True
    then have l: "level (sections ! i) \<noteq> ''chapter''" using "1.prems"(2) by simp
    have "skip_to_chapter sections (Suc i) = length sections"
      using "1.IH" True l "1.prems"(2) by simp
    then show ?thesis using True l by (subst skip_to_chapter.simps) simp
  next
    case False
    then show ?thesis using "1.prems"(1) by (subst skip_to_chapter.simps) simp
  qed
qed

lemma chapter_entries_mem:
  "j < length sections \<Longrightarrow> level (sections ! j) = ''chapter'' \<Longrightarrow>
   (j, sections ! j) \<in> set (chapter_entries sections)"
  by (simp add: chapter_entries_def in_set_enumerate_eq)

lemma chapter_entries_sorted: "sorted (map fst (chapter_entries sections))"
  unfolding chapter_entries_def by (rule sorted_filter) simp

lemma chapter_entries_nonempty:
  "(chapter_entries sections \<noteq> []) = list_ex (\<lambda>s. level s = ''chapter'') sections"
proof -
  have "(chapter_entries sections \<noteq> []) = (\<exists>p \<in> set (enumerate 0 sections). level (snd p) = ''chapter'')"
    by (force simp: chapter_entries_def filter_empty_conv)
  also have "\<dots> = (\<exists>s \<in> set (map snd (enumerate 0 sections)). level s = ''chapter'')"
    by (simp del: map_snd_enumerate)
  finally show ?thesis by (simp add: list_ex_iff)
qed

lemma sorted_le_last: "sorted xs \<Longrightarrow> x \<in> set xs \<Longrightarrow> x \<le> last (xs :: nat list)"
proof (induction xs rule: rev_induct)
  case Nil
  then show ?case by simp
next
  case (snoc y ys)
  then show ?case by (auto simp: sorted_append)
qed

lemma last_chapter_skips:
  assumes "chapter_entries sections \<noteq> []"
  shows "skip_to_chapter sections (fst (last (chapter_entries sections)) + 1) = length sections"
proof -
  let ?i = "fst (last (chapter_entries sections))"
  have "last (chapter_entries sections) \<in> set (enumerate 0 sections)"
    using last_in_set [OF assms] by (auto simp: chapter_entries_def)
  then have lt: "?i < length sections" by (simp add: in_set_enumerate_eq)
  have la: "last (map fst (chapter_entries sections)) = ?i" using assms by (simp add: last_map)
  have "level (sections ! j) \<noteq> ''chapter''" if "?i + 1 \<le> j" "j < length sections" for j
  proof
    assume "level (sections ! j) = ''chapter''"
    from chapter_entries_mem [OF that(2) this]
    have "j \<in> set (map fst (chapter_entries sections))" by force
    from sorted_le_last [OF chapter_entries_sorted this] show False using la that(1) by simp
  qed
  then show ?thesis using lt by (intro skip_to_chapter_end) auto
qed

lemma find_backmatter_eq:
  "find_backmatter (enumerate k lines) =
     (if list_ex is_marker_line lines
      then Some (int (k + length (takeWhile (\<lambda>l. \<not> is_marker_line l) lines)) + 1)
      else None)"
  by (induction lines arbitrary: k) (auto simp: is_marker_line_def)

lemma py_slice_from_nat: "py_slice_from xs (int n) = drop n xs"
  by (simp add: py_slice_from_def slice_bound_def min_def)

lemma py_slice_from_last:
  "py_slice_from xs (int (length xs) - 1) = (if xs = [] then [] else [last xs])"
proof (cases "xs = []")
  case True
  then show ?thesis by (simp add: py_slice_from_def slice_bound_def)
next
  case False
  then have e: "int (length xs) - 1 = int (length xs - 1)" by (cases xs) simp_all
  have "drop (length (butlast xs)) (butlast xs @ [last xs]) = [last xs]" by simp
  then have d: "drop (length xs - 1) xs = [last xs]" using False by simp
  show ?thesis unfolding e py_slice_from_nat d using False by simp
qed

lemma copy_backmatter_eq:
  assumes "chapter_entries sections \<noteq> []"
  shows "copy_backmatter lines sections (chapter_entries sections) =
     (if list_ex is_marker_line lines then dropWhile (\<lambda>l. \<not> is_marker_line l) lines
      else if lines = [] then [] else [last lines])"
proof -
  have s: "skip_to_chapter sections (fst (last (chapter_entries sections)) + 1) = length sections"
    by (rule last_chapter_skips [OF assms])
  have c: "copy_backmatter lines sections (chapter_entries sections) =
      py_slice_from lines
        ((case find_backmatter (enumerate 0 lines) of Some b \<Rightarrow> b | None \<Rightarrow> int (length lines)) - 1)"
    by (simp only: copy_backmatter_def Let_def assms s if_True if_False less_irrefl
          not_False_eq_True)
  show ?thesis
  proof (cases "list_ex is_marker_line lines")
    case True
    have "int (0 + length (takeWhile (\<lambda>l. \<not> is_marker_line l) lines)) + 1 - 1
             = int (length (takeWhile (\<lambda>l. \<not> is_marker_line l) lines))" by simp
    then show ?thesis
      unfolding c find_backmatter_eq using True
      by (simp only: if_True option.case py_slice_from_nat dropWhile_eq_drop)
  next
    case False
    then show ?thesis
      unfolding c find_backmatter_eq
      by (simp only: if_False option.case py_slice_from_last)
  qed
qed

lemma dropWhile_skip_prefix:
  "\<not> list_ex P (take n xs) \<Longrightarrow> dropWhile (\<lambda>x. \<not> P x) xs = dropWhile (\<lambda>x. \<not> P x) (drop n xs)"
proof -
  assume a: "\<not> list_ex P (take n xs)"
  have "dropWhile (\<lambda>x. \<not> P x) (take n xs @ drop n xs) = dropWhile (\<lambda>x. \<not> P x) (drop n xs)"
    using a by (intro dropWhile_append2) (auto simp: list_ex_iff)
  then show ?thesis by simp
qed

section \<open>Runs and the worlds they leave\<close>

lemma overlay_assoc: "overlay (overlay a b) c = overlay a (overlay b c)"
  by (simp add: overlay_def)

lemma overlay_empty [simp]: "overlay w empty_world = w"
  by (simp add: overlay_def empty_world_def)

lemma print_overlay: "print s (overlay w d) = overlay w (print s d)"
  by (simp add: print_def overlay_def)

lemma write_lines_overlay: "write_lines p c (overlay w d) = overlay w (write_lines p c d)"
  by (simp add: write_lines_def overlay_def)

lemma create_subfile_overlay: "create_subfile f c (overlay w d) = overlay w (create_subfile f c d)"
  by (simp add: create_subfile_def Let_def print_overlay write_lines_overlay)

lemma subfile_loop_overlay:
  "subfile_loop m sections lines (overlay w d)
     = (overlay w (fst (subfile_loop m sections lines d)), snd (subfile_loop m sections lines d))"
  by (induction m arbitrary: d)
     (auto simp: print_overlay create_subfile_overlay Let_def split: option.splits sum.splits)

lemma generate_main_w_sub_overlay:
  "generate_main_w_sub lines sections (overlay w d)
     = (overlay w (fst (generate_main_w_sub lines sections d)), snd (generate_main_w_sub lines sections d))"
  by (simp add: generate_main_w_sub_eq print_overlay write_lines_overlay)

lemma main_parse_error:
  "parse_toc toc_text = Inl e \<Longrightarrow>
   main toc_text lines w =
     (print ''\<newline>1. Parsing toc_main.txt...''
        (print (replicate 50 CHR ''='') (print ''LaTeX Subfile Splitter'' w)), Some e)"
  by (simp add: main_def)

lemma main_parsed:
  "parse_toc toc_text = Inr sections \<Longrightarrow>
   main toc_text lines w =
     (case subfile_loop LABEL_TO_FILENAME sections lines
             (before_loop (length sections) (length lines) w) of
        (w8, Some e) \<Rightarrow> (w8, Some e)
      | (w8, None) \<Rightarrow> (after_loop lines sections w8, None))"
  by (simp only: main_def Let_def before_loop_def after_loop_def generate_main_w_sub_eq
        sum.case prod.case option.case)

lemma before_loop_overlay: "before_loop n k (overlay w d) = overlay w (before_loop n k d)"
  by (simp add: before_loop_def print_overlay)

lemma after_loop_overlay: "after_loop lines sections (overlay w d) = overlay w (after_loop lines sections d)"
  by (simp add: after_loop_def print_overlay write_lines_overlay)

lemma main_overlay:
  "main toc_text lines (overlay w d)
     = (overlay w (fst (main toc_text lines d)), snd (main toc_text lines d))"
proof (cases "parse_toc toc_text")
  case (Inl e)
  then show ?thesis by (simp add: main_parse_error print_overlay)
next
  case (Inr sections)
  show ?thesis
    by (simp add: main_parsed [OF Inr] before_loop_overlay subfile_loop_overlay after_loop_overlay
          split: prod.splits option.splits)
qed

lemma known_resolvable:
  assumes "list_all (\<lambda>s. known_level (level s)) sections"
  shows "resolvable sections lbl"
proof (cases "first_with_label lbl (enumerate 0 sections)")
  case None
  then show ?thesis by (simp add: resolvable_def)
next
  case (Some idx)
  then have idx: "idx < length sections" using first_with_label_Some [of lbl 0 sections idx] by simp
  have "list_all (\<lambda>s. known_level (level s)) (drop idx sections)"
    using assms by (auto simp: list_all_iff dest: in_set_dropD)
  from resolver_known [OF idx this] show ?thesis using Some by (simp add: resolvable_def)
qed

lemma overlay_twice: "files (overlay (overlay w d) d) = files (overlay w d)"
  by (rule ext) (simp add: overlay_def map_add_def split: option.splits)

lemma table_labels_distinct: "distinct (map fst LABEL_TO_FILENAME)"
  by (simp add: LABEL_TO_FILENAME_def)

lemma table_files_distinct: "distinct (map snd LABEL_TO_FILENAME)"
  by (simp add: LABEL_TO_FILENAME_def)

lemma output_main_not_subfile: "OUTPUT_MAIN \<noteq> path_join SECTIONS_DIR fn"
  by (simp add: OUTPUT_MAIN_def SECTIONS_DIR_def path_join_def)

lemma before_loop_files [simp]: "files (before_loop n k w) = files w"
  by (simp add: before_loop_def print_def)

lemma before_loop_stdout:
  "stdout (before_loop n k w) = stdout w @
     [''LaTeX Subfile Splitter'', replicate 50 CHR ''='', ''\<newline>1. Parsing toc_main.txt...'',
      ''   Found '' @ py_str_nat n @ '' sections'', ''\<newline>2. Reading main.tex...'',
      ''   Read '' @ py_str_nat k @ '' lines'', ''\<newline>3. Generating subfiles...'']"
  by (simp add: before_loop_def print_def)

lemma after_loop_files:
  "files (after_loop lines sections w) =
     (files w)(OUTPUT_MAIN \<mapsto> concat (chapters_output lines sections
                         @ copy_backmatter lines sections (chapter_entries sections)))"
  by (simp add: after_loop_def print_def write_lines_def)

lemma after_loop_stdout:
  "stdout (after_loop lines sections w) = stdout w @
     [''\<newline>4. Generating main_w_sub.tex...'', ''\<newline>Created: main_w_sub.tex'',
      nl # replicate 50 CHR ''='', ''Complete!'',
      ''Created '' @ py_str_nat (length LABEL_TO_FILENAME) @ '' subfiles in: '' @ SECTIONS_DIR,
      ''Created main file: '' @ OUTPUT_MAIN]"
  by (simp add: after_loop_def print_def write_lines_def)

lemma main_completes_iff:
  assumes "parse_toc toc_text = Inr sections"
  shows "(snd (main toc_text lines w) = None)
           = list_all (\<lambda>(lbl, fn). resolvable sections lbl) LABEL_TO_FILENAME"
proof -
  obtain w8 e8 where l: "subfile_loop LABEL_TO_FILENAME sections lines
             (before_loop (length sections) (length lines) w) = (w8, e8)"
    by (cases "subfile_loop LABEL_TO_FILENAME sections lines
             (before_loop (length sections) (length lines) w)")
  have "(e8 = None) = list_all (\<lambda>(lbl, fn). resolvable sections lbl) LABEL_TO_FILENAME"
    using subfile_loop_completes_iff [of LABEL_TO_FILENAME sections lines
             "before_loop (length sections) (length lines) w"] l by simp
  then show ?thesis
    by (cases e8) (simp_all add: main_parsed [OF assms] l)
qed

lemma main_error_ValueError:
  assumes "parse_toc toc_text = Inr sections" and "snd (main toc_text lines w) \<noteq> None"
  shows "snd (main toc_text lines w) = Some ValueError"
proof -
  obtain w8 e8 where l: "subfile_loop LABEL_TO_FILENAME sections lines
             (before_loop (length sections) (length lines) w) = (w8, e8)"
    by (cases "subfile_loop LABEL_TO_FILENAME sections lines
             (before_loop (length sections) (length lines) w)")
  have "\<not> list_all (\<lambda>(lbl, fn). resolvable sections lbl) LABEL_TO_FILENAME"
    using assms(2) main_completes_iff [OF assms(1), of lines w] by simp
  then have "list_ex (\<lambda>(lbl, fn). \<not> resolvable sections lbl) LABEL_TO_FILENAME"
    by (auto simp: list_all_iff list_ex_iff)
  from subfile_loop_aborts [OF this, of lines "before_loop (length sections) (length lines) w"]
  have "e8 = Some ValueError" using l by simp
  then show ?thesis by (simp add: main_parsed [OF assms(1)] l)
qed

lemma main_completed_world:
  assumes "parse_toc toc_text = Inr sections" and "snd (main toc_text lines w) = None"
  shows "fst (main toc_text lines w) =
           after_loop lines sections
             (fst (subfile_loop LABEL_TO_FILENAME sections lines
                     (before_loop (length sections) (length lines) w)))"
    and "snd (subfile_loop LABEL_TO_FILENAME sections lines
                     (before_loop (length sections) (length lines) w)) = None"
proof -
  obtain w8 e8 where l: "subfile_loop LABEL_TO_FILENAME sections lines
             (before_loop (length sections) (length lines) w) = (w8, e8)"
    by (cases "subfile_loop LABEL_TO_FILENAME sections lines
             (before_loop (length sections) (length lines) w)")
  have e: "e8 = None" using assms(2) by (cases e8) (simp_all add: main_parsed [OF assms(1)] l)
  show "fst (main toc_text lines w) =
           after_loop lines sections
             (fst (subfile_loop LABEL_TO_FILENAME sections lines
                     (before_loop (length sections) (length lines) w)))"
    by (simp add: main_parsed [OF assms(1)] l e)
  show "snd (subfile_loop LABEL_TO_FILENAME sections lines
                     (before_loop (length sections) (length lines) w)) = None"
    by (simp add: l e)
qed

lemma distinct_snd_key:
  "distinct (map snd m) \<Longrightarrow> (l, f) \<in> set m \<Longrightarrow> (l', f) \<in> set m \<Longrightarrow> l = l'"
  by (induction m) (auto simp: image_iff)

lemma main_subfile:
  assumes "parse_toc toc_text = Inr sections" and "snd (main toc_text lines w) = None"
    and "(lbl, fn) \<in> set LABEL_TO_FILENAME"
  shows "files (fst (main toc_text lines w)) (path_join SECTIONS_DIR fn)
           = (if label_found sections lbl then subfile_text sections lines lbl
              else files w (path_join SECTIONS_DIR fn))"
proof (cases "label_found sections lbl")
  case True
  show ?thesis
    using subfile_loop_file [OF table_files_distinct main_completed_world(2) [OF assms(1,2)] assms(3) True]
      True output_main_not_subfile [of fn]
    by (simp add: main_completed_world(1) [OF assms(1,2)] after_loop_files)
next
  case False
  have "list_all (\<lambda>(l, f). label_found sections l \<longrightarrow> path_join SECTIONS_DIR f \<noteq> path_join SECTIONS_DIR fn)
          LABEL_TO_FILENAME"
  proof -
    have "f \<noteq> fn" if "(l, f) \<in> set LABEL_TO_FILENAME" "label_found sections l" for l f
    proof
      assume "f = fn"
      then have "l = lbl"
        using that(1) assms(3) distinct_snd_key [OF table_files_distinct] by blast
      then show False using that(2) False by simp
    qed
    then show ?thesis by (auto simp: list_all_iff)
  qed
  from subfile_loop_unfound [OF this] show ?thesis
    using False output_main_not_subfile [of fn]
    by (simp add: main_completed_world(1) [OF assms(1,2)] after_loop_files)
qed

lemma warning_inject [simp]: "(warning a = warning b) = (a = b)"
  by (simp add: warning_def)

lemma warning_not_created: "''  Created: '' @ f \<noteq> warning l"
  by (simp add: warning_def)

lemma entry_line_warning:
  "(entry_line sections (l, f) = warning lbl) = (\<not> label_found sections l \<and> l = lbl)"
  using warning_not_created [of f lbl] by (auto simp: entry_line_def)

lemma count_entry_lines:
  "distinct (map fst m) \<Longrightarrow> \<not> label_found sections lbl \<Longrightarrow>
   count_list (map (entry_line sections) m) (warning lbl) = (if lbl \<in> set (map fst m) then 1 else 0)"
proof (induction m)
  case Nil
  then show ?case by simp
next
  case (Cons a m)
  obtain l f where a: "a = (l, f)" by (cases a)
  show ?case using Cons a by (auto simp: entry_line_warning image_iff)
qed

lemma replicate_not_warning: "replicate 50 CHR ''='' \<noteq> warning l"
proof
  assume "replicate 50 CHR ''='' = warning l"
  then have "set (warning l) = set (replicate 50 CHR ''='')" by simp
  then show False by (auto simp: warning_def)
qed

lemma main_stdout:
  assumes "parse_toc toc_text = Inr sections" and "snd (main toc_text lines w) = None"
  shows "stdout (fst (main toc_text lines w)) = stdout w @
     [''LaTeX Subfile Splitter'', replicate 50 CHR ''='', ''\<newline>1. Parsing toc_main.txt...'',
      ''   Found '' @ py_str_nat (length sections) @ '' sections'', ''\<newline>2. Reading main.tex...'',
      ''   Read '' @ py_str_nat (length lines) @ '' lines'', ''\<newline>3. Generating subfiles...'']
     @ map (entry_line sections) LABEL_TO_FILENAME
     @ [''\<newline>4. Generating main_w_sub.tex...'', ''\<newline>Created: main_w_sub.tex'',
      nl # replicate 50 CHR ''='', ''Complete!'',
      ''Created '' @ py_str_nat (length LABEL_TO_FILENAME) @ '' subfiles in: '' @ SECTIONS_DIR,
      ''Created main file: '' @ OUTPUT_MAIN]"
  using subfile_loop_stdout [OF main_completed_world(2) [OF assms]]
  by (simp only: main_completed_world(1) [OF assms] after_loop_stdout before_loop_stdout append_assoc)

lemma main_warning_count:
  assumes "parse_toc toc_text = Inr sections" and "snd (main toc_text lines w) = None"
    and "(lbl, fn) \<in> set LABEL_TO_FILENAME" and "\<not> label_found sections lbl"
  shows "count_list (drop (length (stdout w)) (stdout (fst (main toc_text lines w)))) (warning lbl) = 1"
proof -
  have m: "lbl \<in> set (map fst LABEL_TO_FILENAME)" using assms(3) by force
  have c: "count_list (map (entry_line sections) LABEL_TO_FILENAME) (warning lbl) = 1"
    using count_entry_lines [OF table_labels_distinct assms(4)] m by simp
  have r: "warning lbl \<noteq> replicate 50 CHR ''=''" using replicate_not_warning [of lbl] by simp
  have o: "''LaTeX Subfile Splitter'' \<noteq> warning lbl"
     "''\<newline>1. Parsing toc_main.txt...'' \<noteq> warning lbl"
     "''   Found '' @ py_str_nat (length sections) @ '' sections'' \<noteq> warning lbl"
     "''\<newline>2. Reading main.tex...'' \<noteq> warning lbl"
     "''   Read '' @ py_str_nat (length lines) @ '' lines'' \<noteq> warning lbl"
     "''\<newline>3. Generating subfiles...'' \<noteq> warning lbl"
     "''\<newline>4. Generating main_w_sub.tex...'' \<noteq> warning lbl"
     "''\<newline>Created: main_w_sub.tex'' \<noteq> warning lbl"
     "nl # replicate 50 CHR ''='' \<noteq> warning lbl"
     "''Complete!'' \<noteq> warning lbl"
     "''Created '' @ py_str_nat (length LABEL_TO_FILENAME) @ '' subfiles in: '' @ SECTIONS_DIR \<noteq> warning lbl"
     "''Created main file: '' @ OUTPUT_MAIN \<noteq> warning lbl"
    by (simp_all add: warning_def nl_def)
  show ?thesis
    unfolding main_stdout [OF assms(1,2)]
    using c r o by simp
qed

lemma label_found_iff: "label_found sections lbl = (lbl \<in> set (map label sections))"
  using first_with_label_None [of lbl 0 sections] by (auto simp: label_found_def)

lemma resolvable_found_text:
  "resolvable sections lbl \<Longrightarrow> label_found sections lbl \<Longrightarrow> subfile_text sections lines lbl \<noteq> None"
  by (auto simp: resolvable_def label_found_def subfile_text_def split: option.splits sum.splits)

lemma main_aborted_files:
  assumes "parse_toc toc_text = Inr sections" and "snd (main toc_text lines w) \<noteq> None"
  shows "files (fst (main toc_text lines w)) OUTPUT_MAIN = files w OUTPUT_MAIN"
proof -
  obtain w8 e8 where l: "subfile_loop LABEL_TO_FILENAME sections lines
             (before_loop (length sections) (length lines) w) = (w8, e8)"
    by (cases "subfile_loop LABEL_TO_FILENAME sections lines
             (before_loop (length sections) (length lines) w)")
  have e: "e8 \<noteq> None" using assms(2) by (cases e8) (simp_all add: main_parsed [OF assms(1)] l)
  have "OUTPUT_MAIN \<notin> set (map (\<lambda>(lbl, fn). path_join SECTIONS_DIR fn) LABEL_TO_FILENAME)"
    using output_main_not_subfile by (auto simp: image_iff)
  from subfile_loop_untouched [OF this, of sections lines "before_loop (length sections) (length lines) w"]
  have "files w8 OUTPUT_MAIN = files w OUTPUT_MAIN" using l by simp
  then show ?thesis using e by (cases e8) (simp_all add: main_parsed [OF assms(1)] l)
qed

lemma witness_toc: "parse_toc ''chapter,A,,2\<newline>section,S,yolo,3''
   = Inr [\<lparr>level = ''chapter'', title = ''A'', label = '''', line_num = 2\<rparr>,
          \<lparr>level = ''section'', title = ''S'', label = ''yolo'', line_num = 3\<rparr>]"
  by code_simp

section \<open>The parser and failing resolutions\<close>

lemma resolver_unknown:
  assumes "idx < length sections"
    and "\<not> known_level (level (sections ! idx))
         \<or> list_ex (\<lambda>s. \<not> known_level (level s)) (scanned_past sections idx)"
  shows "find_section_content_range sections (int idx) = Inl ValueError"
proof (cases "known_level (level (sections ! idx))")
  case False
  then show ?thesis
    using rank_unknown [OF False] by (simp add: find_section_content_range_scan [OF assms(1)])
next
  case True
  then have ex: "list_ex (\<lambda>s. \<not> known_level (level s))
       (takeWhile (\<lambda>s. level_rank (level (sections ! idx)) < level_rank (level s))
          (drop (Suc idx) sections))"
    using assms(2) by (simp add: scanned_past_def)
  have r: "level_rank (level (sections ! idx)) < 4" using rank_known [OF True] by simp
  show ?thesis
    using rank_known [OF True] scan_records_error [OF r ex]
    by (simp add: find_section_content_range_scan [OF assms(1)])
qed

lemma parse_toc_lines_step:
  "parse_toc_lines (line # rest) acc =
     (if py_strip line \<noteq> [] \<and> length (toc_fields line) = 4 then
        (case py_int (toc_fields line ! 3) of
           None \<Rightarrow> Inl ValueError
         | Some n \<Rightarrow> parse_toc_lines rest (acc @ [toc_record line]))
      else parse_toc_lines rest acc)"
proof (cases "py_strip line \<noteq> [] \<and> length (toc_fields line) = 4")
  case False
  then show ?thesis by (auto simp: toc_fields_def Let_def)
next
  case True
  then obtain a b c d where f: "toc_fields line = [a, b, c, d]"
    by (auto simp: length_Suc_conv numeral_eq_Suc)
  then have f': "map py_strip (py_split CHR '','' (py_strip line)) = [a, b, c, d]"
    by (simp add: toc_fields_def)
  show ?thesis
    using True f
    by (simp add: Let_def f' TexSection_init_def toc_record_def split: option.splits)
qed

lemma witness_bogus_toc: "parse_toc ''bogus,T,yolo,4''
   = Inr [\<lparr>level = ''bogus'', title = ''T'', label = ''yolo'', line_num = 4\<rparr>]"
  by code_simp

lemma parse_toc_lines_bad:
  assumes "line \<in> set ls" and "toc_fields line = [a, b, c, d]" and "py_int d = None"
  shows "parse_toc_lines ls acc = Inl ValueError"
  using assms(1)
proof (induction ls arbitrary: acc)
  case Nil
  then show ?case by simp
next
  case (Cons l ls)
  have ne: "py_strip line \<noteq> []" using assms(2) by (auto simp: toc_fields_def)
  show ?case
  proof (cases "l = line")
    case True
    then show ?thesis using assms(2,3) ne by (subst parse_toc_lines_step) simp
  next
    case False
    then have "line \<in> set ls" using Cons.prems by simp
    from Cons.IH [OF this] show ?thesis
      by (subst parse_toc_lines_step) (simp split: option.splits)
  qed
qed

lemma parse_toc_lines_good:
  "list_all (\<lambda>l. py_strip l \<noteq> [] \<and> length (toc_fields l) = 4 \<longrightarrow> py_int (toc_fields l ! 3) \<noteq> None) ls \<Longrightarrow>
   parse_toc_lines ls acc
     = Inr (acc @ map toc_record (filter (\<lambda>l. py_strip l \<noteq> [] \<and> length (toc_fields l) = 4) ls))"
proof (induction ls arbitrary: acc)
  case Nil
  then show ?case by simp
next
  case (Cons l ls)
  then have ih: "parse_toc_lines ls acc'
     = Inr (acc' @ map toc_record (filter (\<lambda>l. py_strip l \<noteq> [] \<and> length (toc_fields l) = 4) ls))" for acc'
    by simp
  show ?case
    using Cons.prems by (subst parse_toc_lines_step) (auto simp: ih)
qed

lemma blank_no_fields: "py_strip l = [] \<Longrightarrow> length (toc_fields l) = 1"
  by (simp add: toc_fields_def)

section \<open>The round-trip scenario\<close>

lemma roundtrip_parse: "parse_toc roundtrip_toc = Inr roundtrip_records"
  by code_simp

lemma roundtrip_range: "find_section_content_range roundtrip_records 1 = Inr (3, Fin 9)"
  by code_simp

lemma roundtrip_first: "first_with_label ''significance_of_study'' (enumerate 0 roundtrip_records) = Some 1"
  by code_simp

lemma roundtrip_known: "list_all (\<lambda>s. known_level (level s)) roundtrip_records"
  by (simp add: roundtrip_records_def known_level_def level_hierarchy_def)

lemma extract_lines_3_9:
  assumes "length lines = 12"
  shows "extract_lines lines 3 (Fin 9) = [lines ! 2, lines ! 3, lines ! 4, lines ! 5, lines ! 6, lines ! 7, lines ! 8]"
proof -
  have e: "extract_lines lines 3 (Fin 9) = take 7 (drop 2 lines)"
    using assms by (simp add: extract_lines_def py_slice_def slice_bound_def Let_def)
  from assms obtain a b c d e f g h i j k l where "lines = [a, b, c, d, e, f, g, h, i, j, k, l]"
    by (auto simp: numeral_eq_Suc length_Suc_conv)
  then show ?thesis unfolding e by simp
qed

lemma quoted_roundtrip_parse: "parse_toc quoted_roundtrip_toc = Inr quoted_roundtrip_records"
  by code_simp

lemma quoted_roundtrip_known: "list_all (\<lambda>s. known_level (level s)) quoted_roundtrip_records"
  by (simp add: quoted_roundtrip_records_def known_level_def level_hierarchy_def)

lemma quoted_roundtrip_unfound: "\<not> label_found quoted_roundtrip_records ''significance_of_study''"
  by code_simp

section \<open>The claims\<close>

text \<open>
  Claim C1. For a record sequence and a target index into it, the range resolver returns the
  target's line number as start line, and as end line the line number, minus one, of the first
  later record whose rank is at most the target's (\<^const>\<open>spec_range\<close>). It does so whenever
  the levels of the target and of the records after it are in the hierarchy, and whenever it
  returns at all. In particular a \<open>section\<close> record directly followed by a \<open>section\<close> record at
  line \<open>L\<close> gets the end line \<open>L - 1\<close>.
\<close>

theorem find_section_content_range_spec:
  assumes "idx < length sections"
  shows "(list_all (\<lambda>s. known_level (level s)) (drop idx sections) \<longrightarrow>
            find_section_content_range sections (int idx) = Inr (spec_range sections idx))
       \<and> (\<forall>r. find_section_content_range sections (int idx) = Inr r \<longrightarrow> r = spec_range sections idx)
       \<and> (Suc idx < length sections \<and> level (sections ! idx) = ''section''
            \<and> level (sections ! Suc idx) = ''section'' \<longrightarrow>
            find_section_content_range sections (int idx)
              = Inr (line_num (sections ! idx), Fin (line_num (sections ! Suc idx) - 1)))"
proof (intro conjI impI allI)
  assume known: "list_all (\<lambda>s. known_level (level s)) (drop idx sections)"
  have dr: "drop idx sections = sections ! idx # drop (Suc idx) sections"
    using assms by (simp add: Cons_nth_drop_Suc)
  from known have k0: "known_level (level (sections ! idx))"
    and ks: "list_all (\<lambda>s. known_level (level s)) (drop (Suc idx) sections)"
    unfolding dr by simp_all
  show "find_section_content_range sections (int idx) = Inr (spec_range sections idx)"
    using rank_known [OF k0] scan_records_known [OF ks]
    by (simp add: find_section_content_range_scan [OF assms] spec_range_def)
next
  fix r
  assume res: "find_section_content_range sections (int idx) = Inr r"
  then obtain c b where c: "list_index level_hierarchy (level (sections ! idx)) = Inr c"
    and b: "scan_records c (drop (Suc idx) sections) = Inr b"
    and r: "r = (line_num (sections ! idx), b)"
    by (auto simp: find_section_content_range_scan [OF assms] split: sum.splits)
  have k0: "known_level (level (sections ! idx))"
    using c rank_unknown [of "level (sections ! idx)"] by auto
  have c4: "c = level_rank (level (sections ! idx))" "c < 4"
    using rank_known [OF k0] c by simp_all
  show "r = spec_range sections idx"
    using scan_records_result [OF c4(2) b] r c4(1) by (simp add: spec_range_def)
next
  assume h: "Suc idx < length sections \<and> level (sections ! idx) = ''section''
            \<and> level (sections ! Suc idx) = ''section''"
  then have dr: "drop (Suc idx) sections = sections ! Suc idx # drop (Suc (Suc idx)) sections"
    by (simp add: Cons_nth_drop_Suc)
  show "find_section_content_range sections (int idx)
          = Inr (line_num (sections ! idx), Fin (line_num (sections ! Suc idx) - 1))"
    using h by (simp add: find_section_content_range_scan [OF assms] dr level_hierarchy_def)
qed

theorem find_section_content_range_spec_witness:
  "find_section_content_range
     [\<lparr>level = ''section'', title = ''A'', label = ''a'', line_num = 3\<rparr>,
      \<lparr>level = ''section'', title = ''B'', label = ''b'', line_num = 7\<rparr>] 0 = Inr (3, Fin 6)"
  using find_section_content_range_spec [of 0
     "[\<lparr>level = ''section'', title = ''A'', label = ''a'', line_num = 3\<rparr>,
       \<lparr>level = ''section'', title = ''B'', label = ''b'', line_num = 7\<rparr>]"]
  by simp

text \<open>
  Claim C4. For every file name and every list of content lines, the subfile writer leaves a
  file that holds the four header lines, then the content lines, then the footer entry, and
  prints one status line.
\<close>

theorem create_subfile_contents:
  "files (create_subfile filename content w) (path_join SECTIONS_DIR filename)
     = Some (concat subfile_header @ concat content @ subfile_footer)
   \<and> length subfile_header = 4 \<and> list_all is_line subfile_header
   \<and> subfile_footer = nl # bs # ''end{document}\<newline>''
   \<and> stdout (create_subfile filename content w) = stdout w @ [''  Created: '' @ filename]"
  by (simp add: create_subfile_def write_lines_def print_def Let_def subfile_header_def
        subfile_footer_def is_line_def nl_def bs_def)

theorem create_subfile_contents_witness:
  "files (create_subfile ''yolo.tex'' [''a\<newline>'', ''b\<newline>''] \<lparr>files = Map.empty, stdout = []\<rparr>)
       (path_join SECTIONS_DIR ''yolo.tex'')
     = Some (bs # ''documentclass[../main.tex]{subfiles}\<newline>''
             @ bs # ''graphicspath{{'' @ bs # ''subfix{../Images/}}}\<newline>''
             @ bs # ''begin{document}\<newline>''
             @ ''\<newline>''
             @ ''a\<newline>b\<newline>''
             @ nl # bs # ''end{document}\<newline>'')"
  using create_subfile_contents [of "''yolo.tex''" "[''a\<newline>'', ''b\<newline>'']" "\<lparr>files = Map.empty, stdout = []\<rparr>"]
  by (simp add: subfile_header_def subfile_footer_def)

text \<open>
  Claim C5. For a record that no record of equal or shallower level follows, the last record
  among them, the resolved range is unbounded; extracting an unbounded range that starts at a
  line number of at least one returns all lines of the buffer from that line on.
\<close>

theorem unbounded_range_extracts_to_end:
  assumes "idx < length sections"
    and "known_level (level (sections ! idx))"
    and "list_all (\<lambda>s. known_level (level s)
                      \<and> level_rank (level (sections ! idx)) < level_rank (level s))
           (drop (Suc idx) sections)"
  shows "find_section_content_range sections (int idx) = Inr (line_num (sections ! idx), PInf)
       \<and> (1 \<le> line_num (sections ! idx) \<longrightarrow>
            extract_lines lines (line_num (sections ! idx)) PInf
              = drop (nat (line_num (sections ! idx) - 1)) lines)"
proof -
  have ks: "list_all (\<lambda>s. known_level (level s)) (drop (Suc idx) sections)"
    using assms(3) by (simp add: list_all_iff)
  have nf: "find (\<lambda>s. level_rank (level s) \<le> level_rank (level (sections ! idx)))
              (drop (Suc idx) sections) = None"
    using assms(3) by (auto simp: find_None_iff list_all_iff)
  show ?thesis
    using rank_known [OF assms(2)] scan_records_known [OF ks] nf extract_lines_unbounded
    by (simp add: find_section_content_range_scan [OF assms(1)])
qed

theorem unbounded_range_extracts_to_end_witness:
  "find_section_content_range
     [\<lparr>level = ''chapter'', title = ''A'', label = ''a'', line_num = 1\<rparr>,
      \<lparr>level = ''section'', title = ''B'', label = ''b'', line_num = 3\<rparr>] 1 = Inr (3, PInf)
   \<and> extract_lines [''l1'', ''l2'', ''l3'', ''l4''] 3 PInf = [''l3'', ''l4'']"
  using unbounded_range_extracts_to_end [of 1
     "[\<lparr>level = ''chapter'', title = ''A'', label = ''a'', line_num = 1\<rparr>,
       \<lparr>level = ''section'', title = ''B'', label = ''b'', line_num = 3\<rparr>]"
     "[''l1'', ''l2'', ''l3'', ''l4'']"]
  by (simp add: known_level_def level_hierarchy_def)

text \<open>
  Claim C9. A run leaves the world it started from, overlaid with files and console lines
  that depend on the table of contents and the master file only, and ends the same way
  whatever it started from: the output files of two runs on the same inputs are equal. Run
  again on the world it left, the tool leaves every file as it is.
\<close>

theorem main_deterministic:
  "main toc_text lines w
     = (overlay w (fst (main toc_text lines empty_world)), snd (main toc_text lines empty_world))
   \<and> files (fst (main toc_text lines (fst (main toc_text lines w))))
       = files (fst (main toc_text lines w))
   \<and> snd (main toc_text lines (fst (main toc_text lines w))) = snd (main toc_text lines w)"
proof -
  define d where "d = fst (main toc_text lines empty_world)"
  define e where "e = snd (main toc_text lines empty_world)"
  have a: "main toc_text lines x = (overlay x d, e)" for x
    using main_overlay [of toc_text lines x empty_world] by (simp add: d_def e_def)
  have b: "files (fst (main toc_text lines (fst (main toc_text lines w))))
       = files (fst (main toc_text lines w))"
    by (simp add: a overlay_twice)
  have c: "snd (main toc_text lines (fst (main toc_text lines w))) = snd (main toc_text lines w)"
    by (simp add: a)
  have "main toc_text lines w = (overlay w d, e)" by (rule a)
  then show ?thesis using b c by (simp add: d_def e_def)
qed

theorem main_deterministic_witness:
  "files (fst (main ''chapter,A,,2\<newline>section,S,yolo,3'' [''x\<newline>'', ''y\<newline>'', ''z\<newline>'']
                 (fst (main ''chapter,A,,2\<newline>section,S,yolo,3'' [''x\<newline>'', ''y\<newline>'', ''z\<newline>''] empty_world))))
     = files (fst (main ''chapter,A,,2\<newline>section,S,yolo,3'' [''x\<newline>'', ''y\<newline>'', ''z\<newline>''] empty_world))"
  using main_deterministic [of "''chapter,A,,2\<newline>section,S,yolo,3''" "[''x\<newline>'', ''y\<newline>'', ''z\<newline>'']" empty_world]
  by simp

text \<open>
  Claim C7. Let the table of contents parse to a record sequence. A run completes when the
  levels of all records are in the hierarchy. In a completed run, an entry of the mapping
  whose label is on no record gets exactly one warning line and its file is left as it was;
  an entry whose label is on a record gets its file, holding the template around the content
  range of the first such record.
\<close>

theorem unmatched_label_warned_and_skipped:
  assumes "parse_toc toc_text = Inr sections"
    and "(lbl, filename) \<in> set LABEL_TO_FILENAME"
  shows "(list_all (\<lambda>s. known_level (level s)) sections \<longrightarrow> snd (main toc_text lines w) = None)
       \<and> (snd (main toc_text lines w) = None \<longrightarrow>
            (lbl \<notin> set (map label sections) \<longrightarrow>
               count_list (drop (length (stdout w)) (stdout (fst (main toc_text lines w))))
                 (warning lbl) = 1
               \<and> files (fst (main toc_text lines w)) (path_join SECTIONS_DIR filename)
                   = files w (path_join SECTIONS_DIR filename))
          \<and> (lbl \<in> set (map label sections) \<longrightarrow>
               subfile_text sections lines lbl \<noteq> None
               \<and> files (fst (main toc_text lines w)) (path_join SECTIONS_DIR filename)
                   = subfile_text sections lines lbl))"
proof (intro conjI impI)
  assume "list_all (\<lambda>s. known_level (level s)) sections"
  then have "list_all (\<lambda>(l, f). resolvable sections l) LABEL_TO_FILENAME"
    using known_resolvable by (auto simp: list_all_iff)
  then show "snd (main toc_text lines w) = None"
    using main_completes_iff [OF assms(1)] by simp
next
  assume c: "snd (main toc_text lines w) = None" and n: "lbl \<notin> set (map label sections)"
  then have nf: "\<not> label_found sections lbl" by (simp add: label_found_iff)
  show "count_list (drop (length (stdout w)) (stdout (fst (main toc_text lines w)))) (warning lbl) = 1"
    by (rule main_warning_count [OF assms(1) c assms(2) nf])
  show "files (fst (main toc_text lines w)) (path_join SECTIONS_DIR filename)
          = files w (path_join SECTIONS_DIR filename)"
    using main_subfile [OF assms(1) c assms(2)] nf by simp
next
  assume c: "snd (main toc_text lines w) = None" and n: "lbl \<in> set (map label sections)"
  then have f: "label_found sections lbl" by (simp add: label_found_iff)
  have "list_all (\<lambda>(l, f). resolvable sections l) LABEL_TO_FILENAME"
    using main_completes_iff [OF assms(1)] c by simp
  then have "resolvable sections lbl" using assms(2) by (auto simp: list_all_iff)
  from resolvable_found_text [OF this f]
  show "subfile_text sections lines lbl \<noteq> None" .
  show "files (fst (main toc_text lines w)) (path_join SECTIONS_DIR filename)
          = subfile_text sections lines lbl"
    using main_subfile [OF assms(1) c assms(2)] f by simp
qed

theorem unmatched_label_warned_and_skipped_witness:
  "snd (main ''chapter,A,,2\<newline>section,S,yolo,3'' [''x\<newline>'', ''y\<newline>'', ''z\<newline>''] empty_world) = None
   \<and> count_list (stdout (fst (main ''chapter,A,,2\<newline>section,S,yolo,3'' [''x\<newline>'', ''y\<newline>'', ''z\<newline>''] empty_world)))
        (warning ''sensors'') = 1
   \<and> files (fst (main ''chapter,A,,2\<newline>section,S,yolo,3'' [''x\<newline>'', ''y\<newline>'', ''z\<newline>''] empty_world))
        (path_join SECTIONS_DIR ''sensors.tex'') = None"
proof -
  have m: "(''sensors'', ''sensors.tex'') \<in> set LABEL_TO_FILENAME"
    by (simp add: LABEL_TO_FILENAME_def)
  show ?thesis
    using unmatched_label_warned_and_skipped [OF witness_toc m,
        of "[''x\<newline>'', ''y\<newline>'', ''z\<newline>'']" empty_world]
    by (simp add: known_level_def level_hierarchy_def empty_world_def)
qed

text \<open>
  Claim C8. When the level of the target record, or of a record the scan passes over, is not
  one of the four of the hierarchy, range resolution fails with the error of the hierarchy
  lookup. A run that resolves such a record for an entry of the mapping ends with that error
  and writes no master file. The parser checks no level: a line of four fields with an
  integer in the fourth gives a record, whatever its first field.
\<close>

theorem unknown_level_aborts:
  assumes "idx < length sections"
    and "\<not> known_level (level (sections ! idx))
         \<or> list_ex (\<lambda>s. \<not> known_level (level s)) (scanned_past sections idx)"
  shows "find_section_content_range sections (int idx) = Inl ValueError
       \<and> (parse_toc toc_text = Inr sections \<and> (lbl, filename) \<in> set LABEL_TO_FILENAME
            \<and> first_with_label lbl (enumerate 0 sections) = Some idx \<longrightarrow>
            snd (main toc_text lines w) = Some ValueError
            \<and> files (fst (main toc_text lines w)) OUTPUT_MAIN = files w OUTPUT_MAIN)
       \<and> (toc_fields line = [lvl, ttl, lab, num] \<and> py_int num = Some n \<longrightarrow>
            parse_toc_lines (line # rest) acc
              = parse_toc_lines rest
                  (acc @ [\<lparr>level = lvl, title = ttl, label = lab, line_num = n\<rparr>]))"
proof (intro conjI impI)
  show r: "find_section_content_range sections (int idx) = Inl ValueError"
    by (rule resolver_unknown [OF assms])
  {
    assume h: "parse_toc toc_text = Inr sections \<and> (lbl, filename) \<in> set LABEL_TO_FILENAME
            \<and> first_with_label lbl (enumerate 0 sections) = Some idx"
    then have "\<not> resolvable sections lbl" using r by (simp add: resolvable_def)
    then have "\<not> list_all (\<lambda>(l, f). resolvable sections l) LABEL_TO_FILENAME"
      using h by (auto simp: list_all_iff)
    then have ne: "snd (main toc_text lines w) \<noteq> None"
      using main_completes_iff [of toc_text sections lines w] h by simp
    show "snd (main toc_text lines w) = Some ValueError"
      using main_error_ValueError [OF _ ne] h by simp
    show "files (fst (main toc_text lines w)) OUTPUT_MAIN = files w OUTPUT_MAIN"
      using main_aborted_files [OF _ ne] h by simp
  }
  assume h: "toc_fields line = [lvl, ttl, lab, num] \<and> py_int num = Some n"
  then have "py_strip line \<noteq> []" by (auto simp: toc_fields_def)
  then show "parse_toc_lines (line # rest) acc
              = parse_toc_lines rest
                  (acc @ [\<lparr>level = lvl, title = ttl, label = lab, line_num = n\<rparr>])"
    using h by (subst parse_toc_lines_step) (simp add: toc_record_def)
qed

theorem unknown_level_aborts_witness:
  "find_section_content_range [\<lparr>level = ''bogus'', title = ''T'', label = ''yolo'', line_num = 4\<rparr>] 0
     = Inl ValueError
   \<and> snd (main ''bogus,T,yolo,4'' [''x\<newline>''] empty_world) = Some ValueError"
proof -
  have m: "(''yolo'', ''yolo.tex'') \<in> set LABEL_TO_FILENAME"
    by (simp add: LABEL_TO_FILENAME_def)
  show ?thesis
    using unknown_level_aborts [of 0 "[\<lparr>level = ''bogus'', title = ''T'', label = ''yolo'', line_num = 4\<rparr>]"
        "''bogus,T,yolo,4''" "''yolo''" "''yolo.tex''" "[''x\<newline>'']" empty_world] witness_bogus_toc m
    by (simp add: known_level_def level_hierarchy_def)
qed

text \<open>
  Claim C6, as amended. For the table of contents whose three lines give the fields without
  quotation marks, chapter Intro ch1 at line 1, section Background significance\_of\_study at
  line 3 and chapter Methods ch2 at line 10, and any master file of twelve lines: the range
  of the section is lines 3 to 9, extraction returns exactly these seven lines, and the run
  writes them, wrapped in header and footer, to the section's subfile.
\<close>

theorem roundtrip_significance_of_study:
  assumes "length lines = 12"
  shows "parse_toc roundtrip_toc = Inr roundtrip_records
       \<and> find_section_content_range roundtrip_records 1 = Inr (3, Fin 9)
       \<and> extract_lines lines 3 (Fin 9) = [lines ! 2, lines ! 3, lines ! 4, lines ! 5, lines ! 6, lines ! 7, lines ! 8]
       \<and> snd (main roundtrip_toc lines w) = None
       \<and> files (fst (main roundtrip_toc lines w)) (path_join SECTIONS_DIR ''significance_of_study.tex'')
           = Some (concat subfile_header @ concat ([lines ! 2, lines ! 3, lines ! 4, lines ! 5, lines ! 6, lines ! 7, lines ! 8]) @ subfile_footer)"
proof -
  have m: "(''significance_of_study'', ''significance_of_study.tex'') \<in> set LABEL_TO_FILENAME"
    by (simp add: LABEL_TO_FILENAME_def)
  have "list_all (\<lambda>(l, f). resolvable roundtrip_records l) LABEL_TO_FILENAME"
    using known_resolvable [OF roundtrip_known] by (auto simp: list_all_iff)
  then have c: "snd (main roundtrip_toc lines w) = None"
    using main_completes_iff [OF roundtrip_parse] by simp
  have f: "label_found roundtrip_records ''significance_of_study''"
    by (simp add: label_found_def roundtrip_first)
  have t: "subfile_text roundtrip_records lines ''significance_of_study''
             = Some (concat subfile_header @ concat ([lines ! 2, lines ! 3, lines ! 4, lines ! 5, lines ! 6, lines ! 7, lines ! 8]) @ subfile_footer)"
    using roundtrip_range
    by (simp add: subfile_text_def roundtrip_first extract_lines_3_9 [OF assms])
  show ?thesis
    using main_subfile [OF roundtrip_parse c m] f t c roundtrip_parse roundtrip_range
      extract_lines_3_9 [OF assms]
    by simp
qed

theorem roundtrip_significance_of_study_witness:
  "files (fst (main roundtrip_toc
                 [''l1\<newline>'', ''l2\<newline>'', ''l3\<newline>'', ''l4\<newline>'', ''l5\<newline>'', ''l6\<newline>'',
                  ''l7\<newline>'', ''l8\<newline>'', ''l9\<newline>'', ''l10\<newline>'', ''l11\<newline>'', ''l12\<newline>'']
                 empty_world))
     (path_join SECTIONS_DIR ''significance_of_study.tex'')
   = Some (concat subfile_header @ ''l3\<newline>l4\<newline>l5\<newline>l6\<newline>l7\<newline>l8\<newline>l9\<newline>'' @ subfile_footer)"
  using roundtrip_significance_of_study [of
          "[''l1\<newline>'', ''l2\<newline>'', ''l3\<newline>'', ''l4\<newline>'', ''l5\<newline>'', ''l6\<newline>'',
            ''l7\<newline>'', ''l8\<newline>'', ''l9\<newline>'', ''l10\<newline>'', ''l11\<newline>'', ''l12\<newline>'']" empty_world]
  by simp

text \<open>
  The claim C6 as stated fails: with the quotation marks in the lines of the table of
  contents, the parser keeps them in titles and labels, the label of the mapping is on no
  record, and the run prints its warning and writes no subfile for it.
\<close>

theorem roundtrip_quoted_toc_counterexample:
  "length twelve_lines = 12
   \<and> parse_toc quoted_roundtrip_toc = Inr quoted_roundtrip_records
   \<and> snd (main quoted_roundtrip_toc twelve_lines empty_world) = None
   \<and> count_list (stdout (fst (main quoted_roundtrip_toc twelve_lines empty_world)))
        (warning ''significance_of_study'') = 1
   \<and> files (fst (main quoted_roundtrip_toc twelve_lines empty_world))
        (path_join SECTIONS_DIR ''significance_of_study.tex'') = None"
proof -
  have m: "(''significance_of_study'', ''significance_of_study.tex'') \<in> set LABEL_TO_FILENAME"
    by (simp add: LABEL_TO_FILENAME_def)
  have "list_all (\<lambda>(l, f). resolvable quoted_roundtrip_records l) LABEL_TO_FILENAME"
    using known_resolvable [OF quoted_roundtrip_known] by (auto simp: list_all_iff)
  then have c: "snd (main quoted_roundtrip_toc twelve_lines empty_world) = None"
    using main_completes_iff [OF quoted_roundtrip_parse] by simp
  have w: "count_list (drop (length (stdout empty_world))
              (stdout (fst (main quoted_roundtrip_toc twelve_lines empty_world))))
              (warning ''significance_of_study'') = 1"
    by (rule main_warning_count [OF quoted_roundtrip_parse c m quoted_roundtrip_unfound])
  have f: "files (fst (main quoted_roundtrip_toc twelve_lines empty_world))
        (path_join SECTIONS_DIR ''significance_of_study.tex'') = None"
    using main_subfile [OF quoted_roundtrip_parse c m] quoted_roundtrip_unfound
    by (simp add: empty_world_def)
  have l: "length twelve_lines = 12" by (simp add: twelve_lines_def)
  show ?thesis using l quoted_roundtrip_parse c w f by (simp add: empty_world_def)
qed

text \<open>
  Claim C10. When some line of the table of contents has exactly four fields and the fourth
  is not an integer literal, the parser raises the conversion error: no record sequence is
  returned, the run ends with the error and has written no file.
\<close>

theorem non_integer_line_number_aborts:
  assumes "line \<in> set (file_lines toc_text)"
    and "toc_fields line = [lvl, ttl, lab, num]"
    and "py_int num = None"
  shows "parse_toc toc_text = Inl ValueError
       \<and> snd (main toc_text lines w) = Some ValueError
       \<and> files (fst (main toc_text lines w)) = files w"
proof -
  have p: "parse_toc toc_text = Inl ValueError"
    unfolding parse_toc_def by (rule parse_toc_lines_bad [OF assms])
  show ?thesis using p by (simp add: main_parse_error print_def)
qed

theorem non_integer_line_number_aborts_witness:
  "parse_toc ''chapter,Intro,ch1,one'' = Inl ValueError
   \<and> snd (main ''chapter,Intro,ch1,one'' [''x\<newline>''] empty_world) = Some ValueError"
proof -
  have l: "''chapter,Intro,ch1,one'' \<in> set (file_lines ''chapter,Intro,ch1,one'')"
    by code_simp
  have f: "toc_fields ''chapter,Intro,ch1,one'' = [''chapter'', ''Intro'', ''ch1'', ''one'']"
    by code_simp
  have i: "py_int ''one'' = None"
    by code_simp
  show ?thesis
    using non_integer_line_number_aborts [OF l f i, of "[''x\<newline>'']" empty_world] by simp
qed

text \<open>
  Claim C2, as amended. When the fourth field of every non-blank line of four fields is an
  integer literal, the parser returns one record, of the trimmed fields, for each non-blank
  line of exactly four fields, in order, and nothing for any other line. Whatever the other
  lines hold, a blank line or a line with another number of fields is passed over without
  record and without error.
\<close>

theorem parse_toc_integer_line_numbers:
  assumes "list_all (\<lambda>l. py_strip l \<noteq> [] \<and> length (toc_fields l) = 4 \<longrightarrow> py_int (toc_fields l ! 3) \<noteq> None)
             (file_lines toc_text)"
  shows "parse_toc toc_text = Inr (spec_parse_toc toc_text)
       \<and> (py_strip line = [] \<or> length (toc_fields line) \<noteq> 4 \<longrightarrow>
            parse_toc_lines (line # rest) acc = parse_toc_lines rest acc)"
proof
  show "parse_toc toc_text = Inr (spec_parse_toc toc_text)"
    using parse_toc_lines_good [OF assms, of "[]"] by (simp add: parse_toc_def spec_parse_toc_def)
  show "py_strip line = [] \<or> length (toc_fields line) \<noteq> 4 \<longrightarrow>
            parse_toc_lines (line # rest) acc = parse_toc_lines rest acc"
    by (subst parse_toc_lines_step) auto
qed

theorem parse_toc_integer_line_numbers_witness:
  "parse_toc ''chapter, Intro ,ch1, 1 \<newline>\<newline>bad,line\<newline>a,b,c,d,e\<newline>section,S,,7''
     = Inr [\<lparr>level = ''chapter'', title = ''Intro'', label = ''ch1'', line_num = 1\<rparr>,
            \<lparr>level = ''section'', title = ''S'', label = '''', line_num = 7\<rparr>]"
proof -
  have h: "list_all (\<lambda>l. py_strip l \<noteq> [] \<and> length (toc_fields l) = 4 \<longrightarrow> py_int (toc_fields l ! 3) \<noteq> None)
             (file_lines ''chapter, Intro ,ch1, 1 \<newline>\<newline>bad,line\<newline>a,b,c,d,e\<newline>section,S,,7'')"
    by code_simp
  have s: "spec_parse_toc ''chapter, Intro ,ch1, 1 \<newline>\<newline>bad,line\<newline>a,b,c,d,e\<newline>section,S,,7''
     = [\<lparr>level = ''chapter'', title = ''Intro'', label = ''ch1'', line_num = 1\<rparr>,
            \<lparr>level = ''section'', title = ''S'', label = '''', line_num = 7\<rparr>]"
    by code_simp
  show ?thesis
    using parse_toc_integer_line_numbers [OF h] s by simp
qed

text \<open>
  The claim C2 as stated fails: the text \<^verbatim>\<open>a,b,c,d\<close> is one non-blank line of exactly four
  fields, and the parser raises an error for it instead of producing a record.
\<close>

theorem parse_toc_four_fields_counterexample:
  "py_strip ''a,b,c,d'' \<noteq> [] \<and> length (toc_fields ''a,b,c,d'') = 4
   \<and> parse_toc ''a,b,c,d'' = Inl ValueError
   \<and> parse_toc ''a,b,c,d'' \<noteq> Inr (spec_parse_toc ''a,b,c,d'')"
proof -
  have "py_strip ''a,b,c,d'' \<noteq> []" by code_simp
  moreover have "length (toc_fields ''a,b,c,d'') = 4" by code_simp
  moreover have "parse_toc ''a,b,c,d'' = Inl ValueError" by code_simp
  ultimately show ?thesis by simp
qed

text \<open>
  Claim C3. Step 4 is to copy the back matter after the last chapter, from the first marker
  line that follows the last chapter record. The search of the code starts at the first line
  of the file instead. For the master file below, whose preamble names the bibliography style
  in line 2 and whose only record, a chapter at line 4, is followed by no record, the marker
  after the chapter is in line 6; the reassembler appends the file from line 2 on.
\<close>

theorem backmatter_search_from_first_line:
  "level (last bibstyle_sections) = ''chapter''
   \<and> last_chapter_line bibstyle_sections = 4
   \<and> spec_backmatter bibstyle_lines (last_chapter_line bibstyle_sections)
       = [bs # ''bibliography{refs}\<newline>'']
   \<and> copy_backmatter bibstyle_lines bibstyle_sections (chapter_entries bibstyle_sections)
       = [bs # ''bibliographystyle{plain}\<newline>'', bs # ''begin{document}\<newline>'',
          bs # ''chapter{A}\<newline>'', ''text\<newline>'', bs # ''bibliography{refs}\<newline>'']
   \<and> main_w_sub_lines bibstyle_lines bibstyle_sections
       = Inr (chapters_output bibstyle_lines bibstyle_sections
              @ [bs # ''bibliographystyle{plain}\<newline>'', bs # ''begin{document}\<newline>'',
                 bs # ''chapter{A}\<newline>'', ''text\<newline>'', bs # ''bibliography{refs}\<newline>''])"
proof -
  have "level (last bibstyle_sections) = ''chapter''" by code_simp
  moreover have "last_chapter_line bibstyle_sections = 4" by code_simp
  moreover have "spec_backmatter bibstyle_lines (last_chapter_line bibstyle_sections)
       = [bs # ''bibliography{refs}\<newline>'']" by code_simp
  moreover have c: "copy_backmatter bibstyle_lines bibstyle_sections (chapter_entries bibstyle_sections)
       = [bs # ''bibliographystyle{plain}\<newline>'', bs # ''begin{document}\<newline>'',
          bs # ''chapter{A}\<newline>'', ''text\<newline>'', bs # ''bibliography{refs}\<newline>'']" by code_simp
  moreover have "main_w_sub_lines bibstyle_lines bibstyle_sections
       = Inr (chapters_output bibstyle_lines bibstyle_sections
              @ [bs # ''bibliographystyle{plain}\<newline>'', bs # ''begin{document}\<newline>'',
                 bs # ''chapter{A}\<newline>'', ''text\<newline>'', bs # ''bibliography{refs}\<newline>''])"
    unfolding main_w_sub_lines_chapters_output c by simp
  ultimately show ?thesis by blast
qed

end
